theory Spec2Isabelle
  imports Main "HOL-Library.AList"
begin

section \<open>JavaScript values\<close>

text \<open>
  The annotation code works on parsed JSON through \<open>any\<close>-typed property access, so the
  values it can meet are modelled as one datatype: the JSON values and \<open>undefined\<close>.
  An object is the list of its own properties in the order \<open>Object.keys\<close> reports them.
  Numbers are integers here (row indices, lengths and sequence numbers are); properties
  inherited from the built-in prototypes are not part of the model.
\<close>

datatype jsval =
    JUndefined
  | JNull
  | JBool bool
  | JNum int
  | JStr string
  | JArr "jsval list"
  | JObj "(string \<times> jsval) list"

text \<open>
  Every \<open>throw new Error(msg)\<close> of the source is \<open>Error msg\<close>; \<open>TypeError\<close> is what the
  engine raises on property access on \<open>null\<close> or \<open>undefined\<close>.
\<close>

datatype error = TypeError | Error string

definition is_nullish :: "jsval \<Rightarrow> bool" where
  "is_nullish v = (v = JUndefined \<or> v = JNull)"

text \<open>The operator \<open>a ?? b\<close>.\<close>

definition nullish_or :: "jsval \<Rightarrow> jsval \<Rightarrow> jsval" where
  "nullish_or a b = (if is_nullish a then b else a)"

definition isArray :: "jsval \<Rightarrow> bool" where
  "isArray v = (case v of JArr _ \<Rightarrow> True | _ \<Rightarrow> False)"

subsection \<open>Numbers as property keys\<close>

definition digit_char :: "nat \<Rightarrow> char" where
  "digit_char d = ''0123456789'' ! d"

fun show_nat :: "nat \<Rightarrow> string" where
  "show_nat n = (if n < 10 then [digit_char n] else show_nat (n div 10) @ [digit_char (n mod 10)])"

declare show_nat.simps [simp del]

definition show_int :: "int \<Rightarrow> string" where
  "show_int i = (if i < 0 then CHR ''-'' # show_nat (nat (- i)) else show_nat (nat i))"

definition is_digit :: "char \<Rightarrow> bool" where
  "is_digit c = (48 \<le> (of_char c :: nat) \<and> (of_char c :: nat) \<le> 57)"

text \<open>A property name that is a canonical array index (\<open>"0"\<close>, \<open>"17"\<close>, not \<open>"017"\<close>).\<close>

definition index_of :: "string \<Rightarrow> nat option" where
  "index_of s =
     (if s \<noteq> [] \<and> list_all is_digit s \<and> (hd s \<noteq> CHR ''0'' \<or> length s = 1)
      then Some (foldl (\<lambda>n c. 10 * n + ((of_char c :: nat) - 48)) 0 s) else None)"

subsection \<open>Property access\<close>

text \<open>\<open>xs[i]\<close> on a JavaScript array: out of range reads give \<open>undefined\<close>.\<close>

definition nth_js :: "jsval list \<Rightarrow> int \<Rightarrow> jsval" where
  "nth_js xs i = (if 0 \<le> i \<and> nat i < length xs then xs ! nat i else JUndefined)"

definition lookup :: "(string \<times> jsval) list \<Rightarrow> string \<Rightarrow> jsval" where
  "lookup kvs k = (case map_of kvs k of None \<Rightarrow> JUndefined | Some v \<Rightarrow> v)"

text \<open>\<open>v[k]\<close> for a string key \<open>k\<close> and a receiver that is neither \<open>null\<close> nor \<open>undefined\<close>.\<close>

fun get_prop :: "jsval \<Rightarrow> string \<Rightarrow> jsval" where
  "get_prop (JObj kvs) k = lookup kvs k"
| "get_prop (JArr xs) k =
     (if k = ''length'' then JNum (int (length xs))
      else (case index_of k of None \<Rightarrow> JUndefined | Some i \<Rightarrow> nth_js xs (int i)))"
| "get_prop (JStr s) k =
     (if k = ''length'' then JNum (int (length s))
      else (case index_of k of None \<Rightarrow> JUndefined
            | Some i \<Rightarrow> if i < length s then JStr [s ! i] else JUndefined))"
| "get_prop _ k = JUndefined"

text \<open>\<open>v[i]\<close> for a number \<open>i\<close> and a receiver that is neither \<open>null\<close> nor \<open>undefined\<close>.\<close>

fun get_index :: "jsval \<Rightarrow> int \<Rightarrow> jsval" where
  "get_index (JArr xs) i = nth_js xs i"
| "get_index (JStr s) i = (if 0 \<le> i \<and> nat i < length s then JStr [s ! nat i] else JUndefined)"
| "get_index (JObj kvs) i = lookup kvs (show_int i)"
| "get_index _ i = JUndefined"

text \<open>Property access as the engine runs it: a \<open>null\<close> or \<open>undefined\<close> receiver throws.\<close>

definition member :: "jsval \<Rightarrow> string \<Rightarrow> error + jsval" where
  "member v k = (if is_nullish v then Inl TypeError else Inr (get_prop v k))"

definition hasOwn :: "jsval \<Rightarrow> string \<Rightarrow> bool" where
  "hasOwn v k =
     (case v of
        JObj kvs \<Rightarrow> k \<in> set (map fst kvs)
      | JArr xs \<Rightarrow> k = ''length'' \<or> (case index_of k of None \<Rightarrow> False | Some i \<Rightarrow> i < length xs)
      | JStr s \<Rightarrow> k = ''length'' \<or> (case index_of k of None \<Rightarrow> False | Some i \<Rightarrow> i < length s)
      | _ \<Rightarrow> False)"

text \<open>\<open>Object.keys(v)\<close>: throws on \<open>null\<close> and \<open>undefined\<close>.\<close>

definition objectKeys :: "jsval \<Rightarrow> error + string list" where
  "objectKeys v =
     (case v of
        JUndefined \<Rightarrow> Inl TypeError
      | JNull \<Rightarrow> Inl TypeError
      | JObj kvs \<Rightarrow> Inr (map fst kvs)
      | JArr xs \<Rightarrow> Inr (map show_nat [0..<length xs])
      | JStr s \<Rightarrow> Inr (map show_nat [0..<length s])
      | _ \<Rightarrow> Inr [])"

text \<open>
  The assignment \<open>obj[key] = v\<close> on an object built by the code: an existing key keeps
  its place, a new key goes last. This is \<open>AList.update\<close>.
\<close>

type_synonym js_object = "(string \<times> jsval) list"

definition obj_set :: "string \<Rightarrow> jsval \<Rightarrow> js_object \<Rightarrow> js_object" where
  "obj_set k v obj = AList.update k v obj"

section \<open>Schemas and rows\<close>

text \<open>The selection granularities (\<open>SchemaT\<close> in the parameter types).\<close>

datatype annotation_schema =
    WholeStructure | Entity | Chain | AuthChain | Residue | AuthResidue
  | ResidueRange | AuthResidueRange | Atom | AuthAtom | AllAtomic

text \<open>
  An \<open>AnnotationRow\<close> is a plain object: the fields that are present are its own
  properties.
\<close>

type_synonym annotation_row = js_object

subsection \<open>utils: pickObjectKeys and extend\<close>

text \<open>(\<open>extend\<close> is \<open>extend_array\<close> here: the record package owns the name.)\<close>

text \<open>
  \<open>pickObjectKeys(obj, keys)\<close>: \<open>Object.hasOwn\<close> throws on \<open>null\<close> and \<open>undefined\<close>, which
  the loop reaches as soon as there is one key.
\<close>

definition pickObjectKeys :: "jsval \<Rightarrow> string list \<Rightarrow> error + js_object" where
  "pickObjectKeys obj keys =
     (if keys = [] then Inr []
      else if is_nullish obj then Inl TypeError
      else Inr (fold (\<lambda>key result. if hasOwn obj key then obj_set key (get_prop obj key) result
                                     else result) keys []))"

definition extend_array :: "'a list \<Rightarrow> 'a list \<Rightarrow> 'a list" where
  "extend_array dst src = dst @ src"

text \<open>\<open>xs.map(f)\<close> for an \<open>f\<close> that may throw: the first exception ends the map.\<close>

fun map_err :: "('a \<Rightarrow> error + 'b) \<Rightarrow> 'a list \<Rightarrow> error + 'b list" where
  "map_err f [] = Inr []"
| "map_err f (x # xs) =
     (case f x of
        Inl e \<Rightarrow> Inl e
      | Inr y \<Rightarrow> (case map_err f xs of Inl e \<Rightarrow> Inl e | Inr ys \<Rightarrow> Inr (y # ys)))"

subsection \<open>getRowsFromJson\<close>

text \<open>
  \<open>keys.some(key => js[key].length !== n)\<close>: the keys are visited in order, the first
  one whose length differs answers \<open>true\<close>, and a \<open>null\<close> column throws on \<open>.length\<close>.
\<close>

fun some_length_differs :: "jsval \<Rightarrow> jsval \<Rightarrow> string list \<Rightarrow> error + bool" where
  "some_length_differs js n [] = Inr False"
| "some_length_differs js n (key # keys) =
     (case member (get_prop js key) ''length'' of
        Inl e \<Rightarrow> Inl e
      | Inr l \<Rightarrow> if l \<noteq> n then Inr True else some_length_differs js n keys)"

text \<open>
  The bound of \<open>for (let i = 0; i < n; i++)\<close>: \<open>n\<close> is whatever \<open>.length\<close> gave. A
  number gives that many rounds; \<open>undefined\<close>, \<open>null\<close>, a boolean or an object give none
  (numeric strings, which JavaScript would coerce, do not arise as the length of an
  array or a string).
\<close>

definition loop_bound :: "jsval \<Rightarrow> nat" where
  "loop_bound n = (case n of JNum m \<Rightarrow> nat m | _ \<Rightarrow> 0)"

text \<open>One synthesized row: \<open>item[key] = js[key][i]\<close> for each key in turn.\<close>

definition row_at :: "jsval \<Rightarrow> string list \<Rightarrow> nat \<Rightarrow> annotation_row" where
  "row_at js keys i =
     fold (\<lambda>key item. obj_set key (get_index (get_prop js key) (int i)) item) keys []"

text \<open>
  \<open>FieldsForSchemas\<close>, the table from a schema to its field names, is declared in the
  schemas module; the functions below take it as their first argument.
\<close>

definition getRowsFromJson ::
  "(annotation_schema \<Rightarrow> string list) \<Rightarrow> jsval \<Rightarrow> annotation_schema \<Rightarrow> error + annotation_row list"
where
  "getRowsFromJson FieldsForSchemas js schema =
     (case js of
        JArr elems \<Rightarrow>
          (let wantedKeys = FieldsForSchemas schema
           in map_err (\<lambda>row. pickObjectKeys row wantedKeys) elems)
      | _ \<Rightarrow>
          (let wantedKeys = set (FieldsForSchemas schema) in
           case objectKeys js of
             Inl e \<Rightarrow> Inl e
           | Inr allKeys \<Rightarrow>
               (let keys = filter (\<lambda>key. key \<in> wantedKeys) allKeys in
                if length keys > 0 then
                  (case member (get_prop js (hd keys)) ''length'' of
                     Inl e \<Rightarrow> Inl e
                   | Inr n \<Rightarrow>
                       (case some_length_differs js n keys of
                          Inl e \<Rightarrow> Inl e
                        | Inr True \<Rightarrow> Inl (Error ''FormatError: arrays must have the same length.'')
                        | Inr False \<Rightarrow> Inr (map (row_at js keys) [0..<loop_bound n])))
                else Inr [])))"

subsection \<open>CIF categories and tables\<close>

text \<open>
  The CIF reader and the column tables belong to the host library. A field answers
  \<open>valueKind(row)\<close> and \<open>str(row)\<close> for whatever number it is given; a category finds a
  field by name; a block lists its categories (in the order of \<open>Object.keys\<close>); a file
  lists its blocks.
\<close>

datatype value_kind = Present | NotPresent | Unknown

record cif_field =
  field_valueKind :: "int \<Rightarrow> value_kind"
  field_str :: "int \<Rightarrow> string"

record cif_category =
  cat_rowCount :: nat
  cat_fields :: "(string \<times> cif_field) list"

definition getField :: "cif_category \<Rightarrow> string \<Rightarrow> cif_field option" where
  "getField c name = map_of (cat_fields c) name"

record cif_block =
  header :: string
  categories :: "(string \<times> cif_category) list"

record cif_file =
  blocks :: "cif_block list"

record table_column =
  col_valueKind :: "int \<Rightarrow> value_kind"
  col_value :: "int \<Rightarrow> jsval"

text \<open>A \<open>Table\<close>: \<open>_rowCount\<close>, \<open>_columns\<close> and the column stored under each column name.\<close>

record table =
  tbl_rowCount :: nat
  tbl_columns :: "string list"
  tbl_column :: "string \<Rightarrow> table_column"

subsection \<open>getRowsFromTable\<close>

definition table_row :: "table \<Rightarrow> nat \<Rightarrow> annotation_row" where
  "table_row t iRow =
     fold (\<lambda>col row. if col_valueKind (tbl_column t col) (int iRow) = Present
                       then obj_set col (col_value (tbl_column t col) (int iRow)) row
                       else row)
          (tbl_columns t) []"

definition getRowsFromTable :: "table \<Rightarrow> annotation_row list" where
  "getRowsFromTable t = map (table_row t) [0..<tbl_rowCount t]"

section \<open>Models and the selection helpers\<close>

text \<open>
  A \<open>Model\<close> of the host library, as far as the annotation code reads it: the identity
  token \<open>model.id\<close> and the atoms of \<open>model.atomicHierarchy\<close> with their identifiers in
  label and author numbering. \<open>atoms._rowCount\<close> is the length of the atom list.
\<close>

record atom =
  label_entity_id :: string
  label_asym_id :: string
  auth_asym_id :: string
  label_seq_id :: int
  auth_seq_id :: int
  pdbx_PDB_ins_code :: string
  label_atom_id :: string
  auth_atom_id :: string
  type_symbol :: string
  atom_id :: int

record model =
  model_id :: nat
  model_atoms :: "atom list"

definition nAtoms :: "model \<Rightarrow> nat" where
  "nAtoms m = length (model_atoms m)"

text \<open>Atom ranges: a sequence of ranges \<open>[from, to)\<close> of atom indices.\<close>

type_synonym atom_ranges = "(nat \<times> nat) list"

text \<open>
  Modelled from the spec: \<open>rangesForeach\<close> of helpers/atom-ranges is not among the
  sources. It calls the function once for each range of the sequence, in order.
\<close>

definition rangesForeach :: "atom_ranges \<Rightarrow> (nat \<Rightarrow> nat \<Rightarrow> 's \<Rightarrow> 's) \<Rightarrow> 's \<Rightarrow> 's" where
  "rangesForeach ranges func = fold (\<lambda>(from, to). func from to) ranges"

text \<open>
  What the annotation module imports and the sources do not hold is a parameter of the
  model: the tables \<open>FieldsForSchemas\<close> and \<open>CIFAnnotationSchema\<close> of the schemas module,
  \<open>toTable\<close> of the host library, and the selection helpers \<open>getAtomRangesForRow\<close> and
  \<open>atomQualifies\<close>. The helpers are called with the model and the row (and the indices
  built from the model), never with the schema.
\<close>

record externals =
  FieldsForSchemas :: "annotation_schema \<Rightarrow> string list"
  CIFAnnotationSchema :: js_object
  toTable :: "js_object \<Rightarrow> cif_category \<Rightarrow> table"
  getAtomRangesForRow :: "model \<Rightarrow> annotation_row \<Rightarrow> atom_ranges"
  atomQualifies :: "model \<Rightarrow> nat \<Rightarrow> annotation_row \<Rightarrow> bool"

subsection \<open>getRowsFromCif\<close>

definition getRowsFromCif ::
  "externals \<Rightarrow> cif_category \<Rightarrow> annotation_schema \<Rightarrow> error + annotation_row list"
where
  "getRowsFromCif env cat schema =
     (let rows = [] in
      case pickObjectKeys (JObj (CIFAnnotationSchema env)) (FieldsForSchemas env schema) of
        Inl e \<Rightarrow> Inl e
      | Inr cifSchema \<Rightarrow>
          (let t = toTable env cifSchema cat
           in Inr (extend_array rows (getRowsFromTable t))))"

section \<open>The field accessors\<close>

definition member_index :: "jsval \<Rightarrow> int \<Rightarrow> error + jsval" where
  "member_index v i = (if is_nullish v then Inl TypeError else Inr (get_index v i))"

definition getValueFromJson :: "int \<Rightarrow> string \<Rightarrow> jsval \<Rightarrow> error + jsval" where
  "getValueFromJson rowIndex fieldName js =
     (if isArray js then
        (let row = nullish_or (get_index js rowIndex) (JObj [])
         in member row fieldName)
      else
        (case member js fieldName of
           Inl e \<Rightarrow> Inl e
         | Inr c \<Rightarrow>
             (let column = nullish_or c (JArr [])
              in member_index column rowIndex)))"

definition getValueFromCif :: "int \<Rightarrow> string \<Rightarrow> cif_category \<Rightarrow> jsval" where
  "getValueFromCif rowIndex fieldName cat =
     (case getField cat fieldName of
        None \<Rightarrow> JUndefined
      | Some column \<Rightarrow>
          if field_valueKind column rowIndex \<noteq> Present then JUndefined
          else JStr (field_str column rowIndex))"

section \<open>The Annotation class\<close>

text \<open>
  \<open>AnnotationData\<close> is JSON or one CIF category. An \<open>Annotation\<close> holds its data, its
  schema and the private map \<open>indexedModels\<close> from a model's id to the array computed
  for that model. Arrays are objects with an identity: the map stores a reference, and
  the arrays live in a heap where a reference is the position of the array.
\<close>

datatype annotation_data = JsonData jsval | CifData cif_category

record annotation =
  data :: annotation_data
  schema :: annotation_schema
  indexedModels :: "nat \<rightharpoonup> nat"

type_synonym heap = "int list list"

text \<open>\<open>new Annotation(data, schema)\<close>: the map starts empty.\<close>

definition new_Annotation :: "annotation_data \<Rightarrow> annotation_schema \<Rightarrow> annotation" where
  "new_Annotation d s = \<lparr>data = d, schema = s, indexedModels = Map.empty\<rparr>"

text \<open>A \<open>StructureElement.Location\<close>: the model of its unit and the index of its atom.\<close>

record location =
  unit_model :: model
  element :: nat

definition getRows :: "externals \<Rightarrow> annotation \<Rightarrow> error + annotation_row list" where
  "getRows env this =
     (case data this of
        JsonData js \<Rightarrow> getRowsFromJson (FieldsForSchemas env) js (schema this)
      | CifData cat \<Rightarrow> getRowsFromCif env cat (schema this))"

subsection \<open>getAnnotationForLocation_Reference\<close>

definition getAnnotationForLocation_Reference ::
  "externals \<Rightarrow> annotation \<Rightarrow> location \<Rightarrow> error + annotation_row option"
where
  "getAnnotationForLocation_Reference env this loc =
     (let m = unit_model loc; iAtom = element loc in
      case getRows env this of
        Inl e \<Rightarrow> Inl e
      | Inr rows \<Rightarrow>
          Inr (fold (\<lambda>row result. if atomQualifies env m iAtom row then Some row else result)
                    rows None))"

subsection \<open>getRowForEachAtom\<close>

text \<open>
  \<open>result.fill(value, start, end)\<close> for atom indices \<open>start\<close> and \<open>end\<close>: the entries
  from \<open>start\<close> up to, not including, \<open>end\<close> (or the end of the array) become \<open>value\<close>.
\<close>

definition fill :: "int list \<Rightarrow> int \<Rightarrow> nat \<Rightarrow> nat \<Rightarrow> int list" where
  "fill result v start end =
     map (\<lambda>k. if start \<le> k \<and> k < end then v else result ! k) [0..<length result]"

text \<open>The loop over the rows: row \<open>i\<close> overwrites the entries of its ranges with \<open>i\<close>.\<close>

definition fill_rows ::
  "externals \<Rightarrow> model \<Rightarrow> annotation_row list \<Rightarrow> int list \<Rightarrow> int list"
where
  "fill_rows env m rows result =
     fold (\<lambda>i result.
             (let atomRanges = getAtomRangesForRow env m (rows ! i)
              in rangesForeach atomRanges (\<lambda>from to result. fill result (int i) from to) result))
          [0..<length rows] result"

definition getRowForEachAtom :: "externals \<Rightarrow> annotation \<Rightarrow> model \<Rightarrow> error + int list" where
  "getRowForEachAtom env this m =
     (let result = replicate (nAtoms m) (- 1) in
      case getRows env this of
        Inl e \<Rightarrow> Inl e
      | Inr rows \<Rightarrow> Inr (fill_rows env m rows result))"

subsection \<open>getIndexedModel and getValueForLocation\<close>

text \<open>
  The state a query runs in is the heap and the annotation. A query that throws leaves
  both as they were: the array is stored only after it has been computed.
\<close>

definition getIndexedModel ::
  "externals \<Rightarrow> model \<Rightarrow> heap \<times> annotation \<Rightarrow> error + (nat \<times> heap \<times> annotation)"
where
  "getIndexedModel env m st =
     (let h = fst st; this = snd st; key = model_id m in
      case indexedModels this key of
        None \<Rightarrow>
          (case getRowForEachAtom env this m of
             Inl e \<Rightarrow> Inl e
           | Inr result \<Rightarrow>
               Inr (length h, h @ [result],
                    this\<lparr>indexedModels := (indexedModels this)(key \<mapsto> length h)\<rparr>))
      | Some r \<Rightarrow> Inr (r, h, this))"

text \<open>
  \<open>loc.element\<close> is an atom of \<open>loc.unit.model\<close>, so the read \<open>indexedModel[loc.element]\<close>
  is inside the array (the theorems ask for it).
\<close>

definition getValueForLocation ::
  "externals \<Rightarrow> location \<Rightarrow> string \<Rightarrow> heap \<times> annotation
     \<Rightarrow> error + (jsval \<times> heap \<times> annotation)"
where
  "getValueForLocation env loc fieldName st =
     (case getIndexedModel env (unit_model loc) st of
        Inl e \<Rightarrow> Inl e
      | Inr (r, h, this) \<Rightarrow>
          (let indexedModel = h ! r; iRow = indexedModel ! element loc in
           case data this of
             JsonData js \<Rightarrow>
               (case getValueFromJson iRow fieldName js of
                  Inl e \<Rightarrow> Inl e
                | Inr v \<Rightarrow> Inr (v, h, this))
           | CifData cat \<Rightarrow> Inr (getValueFromCif iRow fieldName cat, h, this)))"

section \<open>Loading\<close>

datatype annotation_format = Fjson | Fcif | Fbcif

definition format_name :: "annotation_format \<Rightarrow> string" where
  "format_name f = (case f of Fjson \<Rightarrow> ''json'' | Fcif \<Rightarrow> ''cif'' | Fbcif \<Rightarrow> ''bcif'')"

datatype block_spec = First | Index int | Header string

record annotation_spec =
  url :: string
  format :: annotation_format
  spec_schema :: annotation_schema
  cifBlock :: block_spec
  cifCategory :: "string option"
  spec_id :: string

datatype annotation_file = JsonFile jsval | CifFile cif_file

subsection \<open>getFileFromSource\<close>

text \<open>
  The asset manager and the parsers belong to the host: \<open>resolve\<close> answers the raw data
  of a url (or fails), \<open>JSON_parse\<close> and \<open>CIF_parse\<close> parse it (or fail). Raw data is
  text or bytes; \<open>!rawData\<close> holds for missing data and for the empty text.
\<close>

datatype data_type = DString | DBinary

datatype raw_data = RawString string | RawBinary "nat list"

record load_context =
  resolve :: "string \<Rightarrow> data_type \<Rightarrow> error + raw_data option"
  JSON_parse :: "raw_data \<Rightarrow> error + jsval"
  CIF_parse :: "raw_data \<Rightarrow> cif_file option"

definition AnnotationFormatTypes :: "annotation_format \<Rightarrow> data_type" where
  "AnnotationFormatTypes f = (case f of Fjson \<Rightarrow> DString | Fcif \<Rightarrow> DString | Fbcif \<Rightarrow> DBinary)"

definition getFileFromSource :: "load_context \<Rightarrow> annotation_spec \<Rightarrow> error + annotation_file" where
  "getFileFromSource ctx source =
     (let dataType = AnnotationFormatTypes (format source) in
      case resolve ctx (url source) dataType of
        Inl e \<Rightarrow> Inl e
      | Inr rawData \<Rightarrow>
          (case rawData of
             None \<Rightarrow> Inl (Error ''Missing data'')
           | Some raw \<Rightarrow>
               if raw = RawString [] then Inl (Error ''Missing data'')
               else (case format source of
                       Fjson \<Rightarrow>
                         (case JSON_parse ctx raw of
                            Inl e \<Rightarrow> Inl e
                          | Inr json \<Rightarrow> Inr (JsonFile json))
                     | _ \<Rightarrow>
                         (case CIF_parse ctx raw of
                            None \<Rightarrow> Inl (Error (''Failed to parse '' @ format_name (format source)))
                          | Some parsed \<Rightarrow> Inr (CifFile parsed)))))"

subsection \<open>getFileFromSources\<close>

text \<open>
  A promise is known by the number of the call of \<open>getFileFromSource\<close> that made it.
  The loop runs to its end before anything is awaited: it leaves the object \<open>promises\<close>
  (key to promise) and the list of the calls it issued, in order.
\<close>

definition source_key :: "annotation_spec \<Rightarrow> string" where
  "source_key src = format_name (format src) @ '':'' @ url src"

definition install :: "annotation_spec \<Rightarrow> (string \<times> nat) list \<times> annotation_spec list
    \<Rightarrow> (string \<times> nat) list \<times> annotation_spec list" where
  "install src st =
     (let promises = fst st; issued = snd st; key = source_key src in
      case map_of promises key of
        Some p \<Rightarrow> (promises, issued)
      | None \<Rightarrow> (AList.update key (length issued) promises, issued @ [src]))"

definition install_all :: "annotation_spec list \<Rightarrow> (string \<times> nat) list \<times> annotation_spec list" where
  "install_all sources = fold install sources ([], [])"

text \<open>utils: \<open>objectFromKeysAndValues\<close> and \<open>promiseAllObj\<close>.\<close>

definition objectFromKeysAndValues :: "string list \<Rightarrow> 'v list \<Rightarrow> (string \<times> 'v) list" where
  "objectFromKeysAndValues keys vals =
     fold (\<lambda>i obj. AList.update (keys ! i) (vals ! i) obj) [0..<length keys] []"

text \<open>
  \<open>Promise.all\<close> fulfils with all the values or rejects with the reason of a promise
  that rejected; the model reports the first one in the order of the list.
\<close>

definition promiseAllObj ::
  "(nat \<Rightarrow> error + 'v) \<Rightarrow> (string \<times> nat) list \<Rightarrow> error + (string \<times> 'v) list"
where
  "promiseAllObj settle promisesObj =
     (let keys = map fst promisesObj; promises = map snd promisesObj in
      case map_err settle promises of
        Inl e \<Rightarrow> Inl e
      | Inr results \<Rightarrow> Inr (objectFromKeysAndValues keys results))"

text \<open>
  The result carries the calls that were issued next to what the function returns. An
  entry of the returned array is \<open>data[key]\<close>, which is \<open>undefined\<close> (\<open>None\<close>) for a
  missing key.
\<close>

definition getFileFromSources ::
  "load_context \<Rightarrow> annotation_spec list \<Rightarrow> annotation_spec list \<times> (error + annotation_file option list)"
where
  "getFileFromSources ctx sources =
     (let st = install_all sources; promises = fst st; issued = snd st in
      (issued,
       case promiseAllObj (\<lambda>p. getFileFromSource ctx (issued ! p)) promises of
         Inl e \<Rightarrow> Inl e
       | Inr d \<Rightarrow> Inr (map (\<lambda>src. map_of d (source_key src)) sources)))"

subsection \<open>Annotation.fromSpec\<close>

text \<open>\<open>blocks.find(b => b.header === h)\<close>.\<close>

definition find_block :: "cif_block list \<Rightarrow> string \<Rightarrow> cif_block option" where
  "find_block bs h = find (\<lambda>b. header b = h) bs"

text \<open>\<open>blocks[i]\<close> for a number \<open>i\<close>.\<close>

definition block_at :: "cif_block list \<Rightarrow> int \<Rightarrow> cif_block option" where
  "block_at bs i = (if 0 \<le> i \<and> nat i < length bs then Some (bs ! nat i) else None)"

text \<open>
  \<open>spec.cifCategory ?? Object.keys(block.categories)[0]\<close>; the test \<open>!categoryName\<close> that
  follows holds for \<open>undefined\<close> and for the empty string.
\<close>

definition category_name :: "annotation_spec \<Rightarrow> cif_block \<Rightarrow> string option" where
  "category_name spec block =
     (case cifCategory spec of
        Some name \<Rightarrow> Some name
      | None \<Rightarrow> (case map fst (categories block) of [] \<Rightarrow> None | name # _ \<Rightarrow> Some name))"

definition select_category :: "annotation_spec \<Rightarrow> cif_block \<Rightarrow> error + annotation_data" where
  "select_category spec block =
     (case category_name spec block of
        None \<Rightarrow> Inl (Error ''There are no categories in CIF block'')
      | Some categoryName \<Rightarrow>
          if categoryName = [] then Inl (Error ''There are no categories in CIF block'')
          else (case map_of (categories block) categoryName of
                  None \<Rightarrow> Inl (Error (''CIF category '' @ categoryName @ '' not found''))
                | Some category \<Rightarrow> Inr (CifData category)))"

definition select_block :: "annotation_spec \<Rightarrow> cif_file \<Rightarrow> error + cif_block" where
  "select_block spec file =
     (if length (blocks file) = 0 then Inl (Error ''No block in CIF'')
      else (case cifBlock spec of
              Header h \<Rightarrow>
                (case find_block (blocks file) h of
                   None \<Rightarrow> Inl (Error (''CIF block with header '' @ h @ '' not found''))
                 | Some foundBlock \<Rightarrow> Inr foundBlock)
            | Index i \<Rightarrow>
                (case block_at (blocks file) i of
                   None \<Rightarrow> Inl (Error (''CIF block with index '' @ show_int i @ '' not found''))
                 | Some block \<Rightarrow> Inr block)
            | First \<Rightarrow> Inr (blocks file ! 0)))"

definition fromSpec ::
  "load_context \<Rightarrow> annotation_spec \<Rightarrow> annotation_file option \<Rightarrow> error + annotation"
where
  "fromSpec ctx spec file =
     (case (case file of None \<Rightarrow> getFileFromSource ctx spec | Some f \<Rightarrow> Inr f) of
        Inl e \<Rightarrow> Inl e
      | Inr f \<Rightarrow>
          (case f of
             JsonFile js \<Rightarrow> Inr (new_Annotation (JsonData js) (spec_schema spec))
           | CifFile cf \<Rightarrow>
               (case select_block spec cf of
                  Inl e \<Rightarrow> Inl e
                | Inr block \<Rightarrow>
                    (case select_category spec block of
                       Inl e \<Rightarrow> Inl e
                     | Inr d \<Rightarrow> Inr (new_Annotation d (spec_schema spec))))))"

section \<open>The Annotations collection\<close>






section \<open>Properties of the row resolution\<close>

definition covers :: "atom_ranges \<Rightarrow> nat \<Rightarrow> bool" where
  "covers ranges i = list_ex (\<lambda>(from, to). from \<le> i \<and> i < to) ranges"

definition is_last_match :: "externals \<Rightarrow> model \<Rightarrow> annotation_row list \<Rightarrow> nat \<Rightarrow> int \<Rightarrow> bool" where
  "is_last_match env m rows i r =
     (if \<exists>j<length rows. covers (getAtomRangesForRow env m (rows ! j)) i
      then \<exists>j<length rows. r = int j \<and> covers (getAtomRangesForRow env m (rows ! j)) i
             \<and> (\<forall>j'<length rows. covers (getAtomRangesForRow env m (rows ! j')) i \<longrightarrow> j' \<le> j)
      else r = - 1)"

definition fill_prefix :: "externals \<Rightarrow> model \<Rightarrow> annotation_row list \<Rightarrow> nat \<Rightarrow> int list \<Rightarrow> int list" where
  "fill_prefix env m rows k result =
     fold (\<lambda>i result.
             (let atomRanges = getAtomRangesForRow env m (rows ! i)
              in rangesForeach atomRanges (\<lambda>from to result. fill result (int i) from to) result))
          [0..<k] result"

section \<open>The selection helpers as the specification describes them\<close>

text \<open>
  Modelled from the spec: \<open>atomQualifies\<close> and \<open>getAtomRangesForRow\<close> of
  helpers/selections are not among the sources. The specification says of a row that
  its fields are optional, that a present field constrains the matching atoms and an
  absent one matches all; that entity and chain fields match the atoms whose identifier
  equals the row's value, residue fields the exact residue number (with the insertion
  code when given), the begin and end fields the residue numbers within \<open>[begin, end]\<close>
  inclusive (unbounded on a side whose field is absent), atom fields the atom name,
  element symbol, serial number or index; and that all the present fields hold together.
  The call sites pass the model and the row only, so this is what decides a match.
  A field whose value is \<open>null\<close> or \<open>undefined\<close> counts as absent.
\<close>

definition field :: "annotation_row \<Rightarrow> string \<Rightarrow> jsval option" where
  "field row name =
     (case map_of row name of
        None \<Rightarrow> None
      | Some v \<Rightarrow> if is_nullish v then None else Some v)"

definition str_ok :: "jsval option \<Rightarrow> string \<Rightarrow> bool" where
  "str_ok f v = (case f of None \<Rightarrow> True | Some x \<Rightarrow> x = JStr v)"

definition int_ok :: "jsval option \<Rightarrow> int \<Rightarrow> bool" where
  "int_ok f v = (case f of None \<Rightarrow> True | Some x \<Rightarrow> x = JNum v)"

definition beg_ok :: "jsval option \<Rightarrow> int \<Rightarrow> bool" where
  "beg_ok f v = (case f of None \<Rightarrow> True | Some (JNum b) \<Rightarrow> b \<le> v | Some _ \<Rightarrow> False)"

definition end_ok :: "jsval option \<Rightarrow> int \<Rightarrow> bool" where
  "end_ok f v = (case f of None \<Rightarrow> True | Some (JNum e) \<Rightarrow> v \<le> e | Some _ \<Rightarrow> False)"

definition atom_matches :: "atom \<Rightarrow> nat \<Rightarrow> annotation_row \<Rightarrow> bool" where
  "atom_matches a iAtom row =
     (str_ok (field row ''label_entity_id'') (label_entity_id a)
      \<and> str_ok (field row ''label_asym_id'') (label_asym_id a)
      \<and> str_ok (field row ''auth_asym_id'') (auth_asym_id a)
      \<and> int_ok (field row ''label_seq_id'') (label_seq_id a)
      \<and> int_ok (field row ''auth_seq_id'') (auth_seq_id a)
      \<and> str_ok (field row ''pdbx_PDB_ins_code'') (pdbx_PDB_ins_code a)
      \<and> beg_ok (field row ''beg_label_seq_id'') (label_seq_id a)
      \<and> end_ok (field row ''end_label_seq_id'') (label_seq_id a)
      \<and> beg_ok (field row ''beg_auth_seq_id'') (auth_seq_id a)
      \<and> end_ok (field row ''end_auth_seq_id'') (auth_seq_id a)
      \<and> str_ok (field row ''label_atom_id'') (label_atom_id a)
      \<and> str_ok (field row ''auth_atom_id'') (auth_atom_id a)
      \<and> str_ok (field row ''type_symbol'') (type_symbol a)
      \<and> int_ok (field row ''atom_id'') (atom_id a)
      \<and> int_ok (field row ''atom_index'') (int iAtom))"

definition atomQualifies_spec :: "model \<Rightarrow> nat \<Rightarrow> annotation_row \<Rightarrow> bool" where
  "atomQualifies_spec m iAtom row =
     (iAtom < nAtoms m \<and> atom_matches (model_atoms m ! iAtom) iAtom row)"

text \<open>
  The matched atoms as an ordered sequence of ranges \<open>[from, to)\<close> that do not overlap:
  the maximal runs of matching atoms, atom \<open>k\<close> being the first of the list.
\<close>

fun ranges_of :: "nat \<Rightarrow> bool list \<Rightarrow> atom_ranges" where
  "ranges_of k [] = []"
| "ranges_of k (b # bs) =
     (if b then
        (case ranges_of (Suc k) bs of
           [] \<Rightarrow> [(k, Suc k)]
         | (from, to) # rs \<Rightarrow> if from = Suc k then (k, to) # rs else (k, Suc k) # (from, to) # rs)
      else ranges_of (Suc k) bs)"

definition getAtomRangesForRow_spec :: "model \<Rightarrow> annotation_row \<Rightarrow> atom_ranges" where
  "getAtomRangesForRow_spec m row =
     ranges_of 0 (map (\<lambda>i. atomQualifies_spec m i row) [0..<nAtoms m])"

text \<open>The module with these two helpers in place; the tables and \<open>toTable\<close> stay as given.\<close>

definition with_spec_helpers :: "externals \<Rightarrow> externals" where
  "with_spec_helpers env =
     env\<lparr>getAtomRangesForRow := getAtomRangesForRow_spec, atomQualifies := atomQualifies_spec\<rparr>"

text \<open>The row the two resolvers name: the indexed one by its index, the reference one itself.\<close>

definition row_of_index :: "annotation_row list \<Rightarrow> int \<Rightarrow> annotation_row option" where
  "row_of_index rows r = (if 0 \<le> r \<and> nat r < length rows then Some (rows ! nat r) else None)"

section \<open>Example inputs\<close>

text \<open>
  A table of field names and a host \<open>toTable\<close> that builds, for each field of the
  schema, a column from the category's field of that name (a field the category lacks
  is never present).
\<close>

definition ex_fields :: "annotation_schema \<Rightarrow> string list" where
  "ex_fields s =
     (case s of
        WholeStructure \<Rightarrow> []
      | Entity \<Rightarrow> [''label_entity_id'']
      | Chain \<Rightarrow> [''label_asym_id'']
      | AuthChain \<Rightarrow> [''auth_asym_id'']
      | Residue \<Rightarrow> [''label_asym_id'', ''label_seq_id'']
      | AuthResidue \<Rightarrow> [''auth_asym_id'', ''auth_seq_id'', ''pdbx_PDB_ins_code'']
      | ResidueRange \<Rightarrow> [''label_asym_id'', ''beg_label_seq_id'', ''end_label_seq_id'']
      | AuthResidueRange \<Rightarrow> [''auth_asym_id'', ''beg_auth_seq_id'', ''end_auth_seq_id'']
      | Atom \<Rightarrow> [''label_asym_id'', ''label_seq_id'', ''label_atom_id'', ''atom_id'', ''atom_index'']
      | AuthAtom \<Rightarrow> [''auth_asym_id'', ''auth_seq_id'', ''auth_atom_id'', ''atom_id'', ''atom_index'']
      | AllAtomic \<Rightarrow>
          [''label_entity_id'', ''label_asym_id'', ''auth_asym_id'', ''label_seq_id'',
           ''auth_seq_id'', ''pdbx_PDB_ins_code'', ''beg_label_seq_id'', ''end_label_seq_id'',
           ''beg_auth_seq_id'', ''end_auth_seq_id'', ''label_atom_id'', ''auth_atom_id'',
           ''type_symbol'', ''atom_id'', ''atom_index''])"

definition ex_column :: "cif_category \<Rightarrow> string \<Rightarrow> table_column" where
  "ex_column cat name =
     (case getField cat name of
        None \<Rightarrow> \<lparr>col_valueKind = (\<lambda>_. NotPresent), col_value = (\<lambda>_. JUndefined)\<rparr>
      | Some f \<Rightarrow> \<lparr>col_valueKind = field_valueKind f, col_value = (\<lambda>i. JStr (field_str f i))\<rparr>)"

definition ex_toTable :: "js_object \<Rightarrow> cif_category \<Rightarrow> table" where
  "ex_toTable cifSchema cat =
     \<lparr>tbl_rowCount = cat_rowCount cat, tbl_columns = map fst cifSchema,
      tbl_column = ex_column cat\<rparr>"

definition ex_env :: externals where
  "ex_env =
     \<lparr>FieldsForSchemas = ex_fields,
      CIFAnnotationSchema = [(''label_asym_id'', JStr ''str''), (''label_seq_id'', JStr ''int'')],
      toTable = ex_toTable,
      getAtomRangesForRow = getAtomRangesForRow_spec,
      atomQualifies = atomQualifies_spec\<rparr>"

text \<open>Three atoms of chain A, in residues 12, 15 and 25.\<close>

definition ex_atom :: "int \<Rightarrow> atom" where
  "ex_atom seq =
     \<lparr>label_entity_id = ''1'', label_asym_id = ''A'', auth_asym_id = ''A'',
      label_seq_id = seq, auth_seq_id = seq, pdbx_PDB_ins_code = [],
      label_atom_id = ''CA'', auth_atom_id = ''CA'', type_symbol = ''C'', atom_id = seq\<rparr>"

definition ex_model :: model where
  "ex_model = \<lparr>model_id = 7, model_atoms = [ex_atom 12, ex_atom 15, ex_atom 25]\<rparr>"

text \<open>The two residue ranges of chain A, the second inside the first.\<close>

definition ex_json :: jsval where
  "ex_json =
     JArr [JObj [(''label_asym_id'', JStr ''A''), (''beg_label_seq_id'', JNum 10),
                 (''end_label_seq_id'', JNum 20), (''color'', JStr ''red'')],
           JObj [(''label_asym_id'', JStr ''A''), (''beg_label_seq_id'', JNum 15),
                 (''end_label_seq_id'', JNum 15), (''color'', JStr ''blue'')]]"

definition ex_rows :: "annotation_row list" where
  "ex_rows =
     [[(''label_asym_id'', JStr ''A''), (''beg_label_seq_id'', JNum 10), (''end_label_seq_id'', JNum 20)],
      [(''label_asym_id'', JStr ''A''), (''beg_label_seq_id'', JNum 15), (''end_label_seq_id'', JNum 15)]]"

definition ex_annotation :: annotation where
  "ex_annotation = new_Annotation (JsonData ex_json) ResidueRange"

section \<open>Sequences of queries\<close>

text \<open>
  The references of a well-formed state point into the heap. A sequence of queries of
  the row-resolution mapping, one model after the other: a query that throws leaves the
  state as it was.
\<close>

definition wf_state :: "heap \<times> annotation \<Rightarrow> bool" where
  "wf_state st = (\<forall>k r. indexedModels (snd st) k = Some r \<longrightarrow> r < length (fst st))"

fun queries :: "externals \<Rightarrow> model list \<Rightarrow> heap \<times> annotation \<Rightarrow> heap \<times> annotation" where
  "queries env [] st = st"
| "queries env (m # ms) st =
     queries env ms (case getIndexedModel env m st of
                       Inl e \<Rightarrow> st
                     | Inr (r, h, this) \<Rightarrow> (h, this))"

text \<open>The example annotation after its first query for the example model.\<close>

definition ex_cached :: annotation where
  "ex_cached = ex_annotation\<lparr>indexedModels := [model_id ex_model \<mapsto> 0]\<rparr>"

section \<open>Properties of the loading\<close>

text \<open>The state of the loop of \<open>getFileFromSources\<close>: promise \<open>p\<close> belongs to the key of the
  \<open>p\<close>-th call, and no two calls have the same key.\<close>

definition promises_inv :: "(string \<times> nat) list \<times> annotation_spec list \<Rightarrow> bool" where
  "promises_inv st =
     (fst st = zip (map source_key (snd st)) [0..<length (snd st)]
      \<and> distinct (map source_key (snd st)))"




text \<open>The column of an object of arrays, when it is an array.\<close>

definition column_array :: "js_object \<Rightarrow> string \<Rightarrow> jsval list option" where
  "column_array cols key = (case lookup cols key of JArr xs \<Rightarrow> Some xs | _ \<Rightarrow> None)"

section \<open>Example sources\<close>

text \<open>A category of two rows; the chain of the second row is unknown, its colour not applicable.\<close>

definition ex_category :: cif_category where
  "ex_category =
     \<lparr>cat_rowCount = 2,
      cat_fields =
        [(''label_asym_id'',
          \<lparr>field_valueKind = (\<lambda>i. if i = 0 then Present else Unknown),
           field_str = (\<lambda>i. if i = 0 then ''A'' else [])\<rparr>),
         (''color'',
          \<lparr>field_valueKind = (\<lambda>i. if i = 0 then Present else NotPresent),
           field_str = (\<lambda>i. if i = 0 then ''red'' else [])\<rparr>)]\<rparr>"

definition ex_other_category :: cif_category where
  "ex_other_category = \<lparr>cat_rowCount = 0, cat_fields = []\<rparr>"

definition ex_cif :: cif_file where
  "ex_cif =
     \<lparr>blocks =
        [\<lparr>header = ''first'', categories = []\<rparr>,
         \<lparr>header = ''second'',
          categories = [(''annot'', ex_category), (''other'', ex_other_category)]\<rparr>]\<rparr>"

text \<open>Two specs for the same JSON file and one for a CIF file; the last two share their id.\<close>

definition ex_spec1 :: annotation_spec where
  "ex_spec1 =
     \<lparr>url = ''a.json'', format = Fjson, spec_schema = ResidueRange, cifBlock = First,
      cifCategory = None, spec_id = ''ranges''\<rparr>"

definition ex_spec2 :: annotation_spec where
  "ex_spec2 =
     \<lparr>url = ''a.json'', format = Fjson, spec_schema = Chain, cifBlock = First,
      cifCategory = None, spec_id = ''chains''\<rparr>"

definition ex_spec3 :: annotation_spec where
  "ex_spec3 =
     \<lparr>url = ''b.cif'', format = Fcif, spec_schema = Chain, cifBlock = Header ''second'',
      cifCategory = None, spec_id = ''chains''\<rparr>"

definition ex_specs :: "annotation_spec list" where
  "ex_specs = [ex_spec1, ex_spec2, ex_spec3]"

definition ex_ctx :: load_context where
  "ex_ctx =
     \<lparr>resolve = (\<lambda>u t. if u = ''a.json'' \<or> u = ''b.cif'' then Inr (Some (RawString u))
                         else Inl (Error ''Not found'')),
      JSON_parse = (\<lambda>raw. if raw = RawString ''a.json'' then Inr ex_json
                          else Inl (Error ''SyntaxError'')),
      CIF_parse = (\<lambda>raw. if raw = RawString ''b.cif'' then Some ex_cif else None)\<rparr>"


text \<open>An object of arrays with columns of equal length, and one whose columns differ.\<close>

definition ex_cols :: js_object where
  "ex_cols =
     [(''label_asym_id'', JArr [JStr ''A'', JStr ''A'']),
      (''beg_label_seq_id'', JArr [JNum 10, JNum 15]),
      (''end_label_seq_id'', JArr [JNum 20, JNum 15]),
      (''color'', JArr [JStr ''red'', JStr ''blue'', JStr ''green''])]"

definition ex_bad_cols :: js_object where
  "ex_bad_cols =
     [(''label_asym_id'', JArr [JStr ''A'', JStr ''A'']),
      (''beg_label_seq_id'', JArr [JNum 10]),
      (''end_label_seq_id'', JArr [JNum 20, JNum 15])]"

section \<open>Lemmas\<close>

subsection \<open>The fill loop\<close>

lemma length_fill: "length (fill result v s e) = length result"
  by (simp add: fill_def)

lemma nth_fill:
  "i < length result \<Longrightarrow> fill result v s e ! i = (if s \<le> i \<and> i < e then v else result ! i)"
  by (simp add: fill_def)

lemma length_rangesForeach_fill:
  "length (rangesForeach ranges (\<lambda>from to res. fill res v from to) result) = length result"
  by (induction ranges arbitrary: result) (auto simp: rangesForeach_def length_fill)

lemma nth_rangesForeach_fill:
  "i < length result \<Longrightarrow>
   rangesForeach ranges (\<lambda>from to res. fill res v from to) result ! i
     = (if covers ranges i then v else result ! i)"
proof (induction ranges arbitrary: result)
  case Nil
  then show ?case by (simp add: rangesForeach_def covers_def)
next
  case (Cons r ranges)
  obtain s e where r: "r = (s, e)" by (cases r)
  have len: "i < length (fill result v s e)" using Cons.prems by (simp add: length_fill)
  have "rangesForeach (r # ranges) (\<lambda>from to res. fill res v from to) result
        = rangesForeach ranges (\<lambda>from to res. fill res v from to) (fill result v s e)"
    by (simp add: rangesForeach_def r)
  then show ?case
    using Cons.IH [OF len] Cons.prems by (auto simp: covers_def r nth_fill)
qed

lemma fill_prefix_Suc:
  "fill_prefix env m rows (Suc k) result =
     rangesForeach (getAtomRangesForRow env m (rows ! k)) (\<lambda>from to res. fill res (int k) from to)
       (fill_prefix env m rows k result)"
  by (simp add: fill_prefix_def)

lemma length_fill_prefix: "length (fill_prefix env m rows k result) = length result"
  by (induction k) (simp_all add: fill_prefix_def length_rangesForeach_fill)

lemma nth_fill_prefix:
  assumes "i < length result"
  shows "(if \<exists>j<k. covers (getAtomRangesForRow env m (rows ! j)) i
      then \<exists>j<k. fill_prefix env m rows k result ! i = int j
             \<and> covers (getAtomRangesForRow env m (rows ! j)) i
             \<and> (\<forall>j'<k. covers (getAtomRangesForRow env m (rows ! j')) i \<longrightarrow> j' \<le> j)
      else fill_prefix env m rows k result ! i = result ! i)"
proof (induction k)
  case 0
  then show ?case by (simp add: fill_prefix_def)
next
  case (Suc k)
  let ?c = "\<lambda>j. covers (getAtomRangesForRow env m (rows ! j)) i"
  let ?r = "\<lambda>k. fill_prefix env m rows k result ! i"
  have len: "i < length (fill_prefix env m rows k result)"
    using assms by (simp add: length_fill_prefix)
  have step: "?r (Suc k) = (if ?c k then int k else ?r k)"
    by (simp add: fill_prefix_Suc nth_rangesForeach_fill [OF len])
  show ?case
  proof (cases "?c k")
    case True
    then have "?r (Suc k) = int k \<and> ?c k \<and> (\<forall>j'<Suc k. ?c j' \<longrightarrow> j' \<le> k)"
      using step by auto
    then have "\<exists>j<Suc k. ?r (Suc k) = int j \<and> ?c j \<and> (\<forall>j'<Suc k. ?c j' \<longrightarrow> j' \<le> j)"
      by blast
    moreover have "\<exists>j<Suc k. ?c j" using True by blast
    ultimately show ?thesis by (simp only: if_True)
  next
    case False
    have same: "?r (Suc k) = ?r k" using False step by simp
    show ?thesis
    proof (cases "\<exists>j<k. ?c j")
      case True
      with Suc.IH obtain j where j: "j < k" "?r k = int j" "?c j" "\<forall>j'<k. ?c j' \<longrightarrow> j' \<le> j"
        by auto
      have "\<forall>j'<Suc k. ?c j' \<longrightarrow> j' \<le> j"
        using j(4) False less_Suc_eq by auto
      with j same have "\<exists>j<Suc k. ?r (Suc k) = int j \<and> ?c j \<and> (\<forall>j'<Suc k. ?c j' \<longrightarrow> j' \<le> j)"
        using less_Suc_eq by auto
      moreover have "\<exists>j<Suc k. ?c j" using True less_Suc_eq by blast
      ultimately show ?thesis by (simp only: if_True)
    next
      case none: False
      with Suc.IH have "?r k = result ! i" by simp
      moreover have "\<not> (\<exists>j<Suc k. ?c j)" using none False less_Suc_eq by auto
      ultimately show ?thesis using same by (simp only: if_False)
    qed
  qed
qed

lemma fill_rows_prefix: "fill_rows env m rows result = fill_prefix env m rows (length rows) result"
  by (simp add: fill_rows_def fill_prefix_def)

lemma fill_rows_last_match:
  "length (fill_rows env m rows (replicate n (- 1))) = n
   \<and> (\<forall>i<n. is_last_match env m rows i (fill_rows env m rows (replicate n (- 1)) ! i))"
proof -
  let ?res = "fill_rows env m rows (replicate n (- 1))"
  have len: "length ?res = n"
    by (simp add: fill_rows_prefix length_fill_prefix)
  have "is_last_match env m rows i (?res ! i)" if "i < n" for i
  proof -
    have i: "i < length (replicate n (- 1 :: int))" using that by simp
    show ?thesis
      using nth_fill_prefix [OF i, of "length rows" env m rows] that
      unfolding is_last_match_def fill_rows_prefix by (auto split: if_splits)
  qed
  with len show ?thesis by blast
qed

subsection \<open>The reference resolver and the helpers of the specification\<close>

lemma ranges_of_bounds:
  "(f, t) \<in> set (ranges_of k bs) \<Longrightarrow> k \<le> f \<and> f < t"
proof (induction bs arbitrary: k f t)
  case Nil
  then show ?case by simp
next
  case (Cons b bs)
  show ?case
  proof (cases b)
    case False
    with Cons.prems have "(f, t) \<in> set (ranges_of (Suc k) bs)" by simp
    from Cons.IH [OF this] show ?thesis by simp
  next
    case True
    show ?thesis
    proof (cases "ranges_of (Suc k) bs")
      case Nil
      with True Cons.prems show ?thesis by simp
    next
      case (Cons r rs)
      obtain f' t' where r: "r = (f', t')" by (cases r)
      have hd: "Suc k \<le> f' \<and> f' < t'"
        using Cons.IH [of f' t' "Suc k"] Cons r by simp
      have tl: "(f, t) \<in> set rs \<Longrightarrow> Suc k \<le> f \<and> f < t"
        using Cons.IH [of f t "Suc k"] Cons by simp
      from True Cons r Cons.prems hd tl show ?thesis
        by (auto split: if_splits)
    qed
  qed
qed

lemma covers_Cons: "covers ((f, t) # rs) i \<longleftrightarrow> (f \<le> i \<and> i < t) \<or> covers rs i"
  by (simp add: covers_def)

lemma covers_Nil: "\<not> covers [] i"
  by (simp add: covers_def)

lemma covers_ranges_of:
  "covers (ranges_of k bs) i \<longleftrightarrow> k \<le> i \<and> i < k + length bs \<and> bs ! (i - k)"
proof (induction bs arbitrary: k)
  case Nil
  then show ?case by (simp add: covers_def)
next
  case (Cons b bs)
  have tail: "covers (ranges_of (Suc k) bs) i \<longleftrightarrow> Suc k \<le> i \<and> i < Suc k + length bs \<and> bs ! (i - Suc k)"
    by (rule Cons.IH)
  have nth: "Suc k \<le> i \<Longrightarrow> (b # bs) ! (i - k) = bs ! (i - Suc k)"
    by (simp add: Suc_diff_le Suc_le_eq less_imp_le)
  have rhs: "(k \<le> i \<and> i < k + length (b # bs) \<and> (b # bs) ! (i - k))
       \<longleftrightarrow> (i = k \<and> b) \<or> (Suc k \<le> i \<and> i < Suc k + length bs \<and> bs ! (i - Suc k))"
    using nth by (cases "i = k") auto
  show ?case
  proof (cases b)
    case False
    then show ?thesis using tail rhs by simp
  next
    case True
    show ?thesis
    proof (cases "ranges_of (Suc k) bs")
      case Nil
      then have "ranges_of k (b # bs) = [(k, Suc k)]" using True by simp
      moreover have "\<not> covers (ranges_of (Suc k) bs) i" using Nil covers_Nil by simp
      ultimately show ?thesis using tail rhs True by (auto simp: covers_Cons covers_Nil)
    next
      case (Cons r rs)
      obtain f' t' where r: "r = (f', t')" by (cases r)
      have hd: "Suc k \<le> f' \<and> f' < t'"
        using ranges_of_bounds [of f' t' "Suc k" bs] Cons r by simp
      have c: "covers (ranges_of (Suc k) bs) i \<longleftrightarrow> (f' \<le> i \<and> i < t') \<or> covers rs i"
        using Cons r by (simp add: covers_Cons)
      have "covers (ranges_of k (b # bs)) i \<longleftrightarrow> i = k \<or> (f' \<le> i \<and> i < t') \<or> covers rs i"
        using True Cons r hd by (auto simp: covers_Cons)
      then show ?thesis using c tail rhs True by auto
    qed
  qed
qed

lemma fold_reference_no_match:
  "\<forall>x\<in>set xs. \<not> q x \<Longrightarrow> fold (\<lambda>row result. if q row then Some row else result) xs r = r"
  by (induction xs arbitrary: r) auto

lemma fold_reference_last:
  assumes "j < length rows" and "q (rows ! j)"
      and "\<forall>j'<length rows. q (rows ! j') \<longrightarrow> j' \<le> j"
  shows "fold (\<lambda>row result. if q row then Some row else result) rows r = Some (rows ! j)"
proof -
  let ?f = "\<lambda>row result. if q row then Some row else result"
  have split: "rows = take j rows @ rows ! j # drop (Suc j) rows"
    using assms(1) by (simp add: id_take_nth_drop)
  have later: "\<forall>x\<in>set (drop (Suc j) rows). \<not> q x"
  proof
    fix x assume "x \<in> set (drop (Suc j) rows)"
    then obtain n where n: "n < length (drop (Suc j) rows)" "x = drop (Suc j) rows ! n"
      by (auto simp: in_set_conv_nth)
    then have "x = rows ! (Suc j + n)" and "Suc j + n < length rows" by auto
    with assms(3) show "\<not> q x" by fastforce
  qed
  have "fold ?f rows r = fold ?f (drop (Suc j) rows) (fold ?f [rows ! j] (fold ?f (take j rows) r))"
    by (subst split) (simp del: append_take_drop_id)
  also have "\<dots> = fold ?f (drop (Suc j) rows) (Some (rows ! j))"
    using assms(2) by simp
  also have "\<dots> = Some (rows ! j)"
    by (rule fold_reference_no_match [OF later])
  finally show ?thesis .
qed

lemma getRowForEachAtom_cases:
  "getRowForEachAtom env this m =
     (case getRows env this of Inl e \<Rightarrow> Inl e
      | Inr rows \<Rightarrow> Inr (fill_rows env m rows (replicate (nAtoms m) (- 1))))"
  by (simp add: getRowForEachAtom_def)

lemma indexed_eq_reference_generic:
  assumes rows: "getRows env this = Inr rows"
      and agree: "\<forall>j<length rows. atomQualifies env m i (rows ! j)
                     \<longleftrightarrow> covers (getAtomRangesForRow env m (rows ! j)) i"
      and i: "i < nAtoms m"
  shows "\<exists>result. getRowForEachAtom env this m = Inr result
           \<and> getAnnotationForLocation_Reference env this \<lparr>unit_model = m, element = i\<rparr>
               = Inr (row_of_index rows (result ! i))"
proof -
  let ?result = "fill_rows env m rows (replicate (nAtoms m) (- 1))"
  have res: "getRowForEachAtom env this m = Inr ?result"
    using rows by (simp add: getRowForEachAtom_def)
  have last: "is_last_match env m rows i (?result ! i)"
    using fill_rows_last_match [of env m rows "nAtoms m"] i by blast
  let ?q = "\<lambda>row. atomQualifies env m i row"
  have ref: "getAnnotationForLocation_Reference env this \<lparr>unit_model = m, element = i\<rparr>
      = Inr (fold (\<lambda>row result. if ?q row then Some row else result) rows None)"
    using rows by (simp add: getAnnotationForLocation_Reference_def)
  have "fold (\<lambda>row result. if ?q row then Some row else result) rows None
      = row_of_index rows (?result ! i)"
  proof (cases "\<exists>j<length rows. covers (getAtomRangesForRow env m (rows ! j)) i")
    case True
    with last obtain j where j: "j < length rows" "?result ! i = int j"
        "covers (getAtomRangesForRow env m (rows ! j)) i"
        "\<forall>j'<length rows. covers (getAtomRangesForRow env m (rows ! j')) i \<longrightarrow> j' \<le> j"
      unfolding is_last_match_def by auto
    have "fold (\<lambda>row result. if ?q row then Some row else result) rows None = Some (rows ! j)"
      by (rule fold_reference_last) (use j agree in auto)
    then show ?thesis using j by (simp add: row_of_index_def)
  next
    case False
    with last have r: "?result ! i = - 1" unfolding is_last_match_def by simp
    have "\<forall>x\<in>set rows. \<not> ?q x"
      using False agree by (auto simp: in_set_conv_nth)
    from fold_reference_no_match [OF this] r show ?thesis
      by (simp add: row_of_index_def)
  qed
  with res ref show ?thesis by simp
qed

lemma spec_helpers_agree:
  "atomQualifies_spec m i row \<longleftrightarrow> covers (getAtomRangesForRow_spec m row) i"
  by (auto simp: getAtomRangesForRow_spec_def covers_ranges_of atomQualifies_spec_def)

lemma getRows_with_spec_helpers: "getRows (with_spec_helpers env) this = getRows env this"
  by (simp add: getRows_def with_spec_helpers_def getRowsFromCif_def Let_def
      split: annotation_data.splits sum.splits)

subsection \<open>Rows without selector fields, and empty residue ranges\<close>












subsection \<open>The cache of row-resolution arrays\<close>

lemma getIndexedModel_hit:
  "indexedModels this (model_id m) = Some r \<Longrightarrow> getIndexedModel env m (h, this) = Inr (r, h, this)"
  by (simp add: getIndexedModel_def)

lemma getIndexedModel_miss:
  assumes "indexedModels this (model_id m) = None"
      and "getIndexedModel env m (h, this) = Inr (r, h', this')"
  shows "\<exists>result. getRowForEachAtom env this m = Inr result \<and> r = length h \<and> h' = h @ [result]
           \<and> this' = this\<lparr>indexedModels := (indexedModels this)(model_id m \<mapsto> length h)\<rparr>"
  using assms by (auto simp: getIndexedModel_def Let_def split: sum.splits)

text \<open>What one successful query does to the state.\<close>

lemma getIndexedModel_step:
  assumes wf: "wf_state (h, this)"
      and q: "getIndexedModel env m (h, this) = Inr (r, h', this')"
  shows "indexedModels this' (model_id m) = Some r"
    and "\<forall>k r0. indexedModels this k = Some r0 \<longrightarrow> indexedModels this' k = Some r0"
    and "take (length h) h' = h"
    and "wf_state (h', this')"
    and "finite (dom (indexedModels this') - dom (indexedModels this))"
    and "length h' = length h + card (dom (indexedModels this') - dom (indexedModels this))"
    and "data this' = data this" and "schema this' = schema this"
proof -
  show "indexedModels this' (model_id m) = Some r"
    using q by (auto simp: getIndexedModel_def Let_def split: option.splits sum.splits)
  show "\<forall>k r0. indexedModels this k = Some r0 \<longrightarrow> indexedModels this' k = Some r0"
    using q by (auto simp: getIndexedModel_def Let_def split: option.splits sum.splits)
  show "take (length h) h' = h"
    using q by (auto simp: getIndexedModel_def Let_def split: option.splits sum.splits)
  show "wf_state (h', this')"
    using q wf by (auto simp: getIndexedModel_def Let_def wf_state_def less_Suc_eq
        split: option.splits sum.splits if_splits)
  show "data this' = data this" and "schema this' = schema this"
    using q by (auto simp: getIndexedModel_def Let_def split: option.splits sum.splits)
  have d: "dom (indexedModels this') - dom (indexedModels this)
      = (if indexedModels this (model_id m) = None then {model_id m} else {})"
    using q by (auto simp: getIndexedModel_def Let_def split: option.splits sum.splits if_splits)
  show "finite (dom (indexedModels this') - dom (indexedModels this))"
    by (simp add: d)
  show "length h' = length h + card (dom (indexedModels this') - dom (indexedModels this))"
    using q by (auto simp: d getIndexedModel_def Let_def split: option.splits sum.splits)
qed

lemma queries_invariant:
  assumes "wf_state (h, this)" and "queries env ms (h, this) = (h', this')"
  shows "(\<forall>k r0. indexedModels this k = Some r0 \<longrightarrow> indexedModels this' k = Some r0)
       \<and> take (length h) h' = h
       \<and> wf_state (h', this')
       \<and> finite (dom (indexedModels this') - dom (indexedModels this))
       \<and> length h' = length h + card (dom (indexedModels this') - dom (indexedModels this))"
  using assms
proof (induction ms arbitrary: h this)
  case Nil
  then show ?case by simp
next
  case (Cons m ms)
  show ?case
  proof (cases "getIndexedModel env m (h, this)")
    case (Inl e)
    with Cons.prems have "queries env ms (h, this) = (h', this')" by simp
    from Cons.IH [OF Cons.prems(1) this] show ?thesis .
  next
    case (Inr res)
    obtain r h1 this1 where res: "res = (r, h1, this1)" by (cases res)
    have q: "getIndexedModel env m (h, this) = Inr (r, h1, this1)" using Inr res by simp
    note s = getIndexedModel_step [OF Cons.prems(1) q]
    have rest: "queries env ms (h1, this1) = (h', this')"
      using Cons.prems(2) q by simp
    note ih = Cons.IH [OF s(4) rest]
    let ?d0 = "dom (indexedModels this)" and ?d1 = "dom (indexedModels this1)"
      and ?d2 = "dom (indexedModels this')"
    have sub01: "?d0 \<subseteq> ?d1" using s(2) by (auto simp: dom_def)
    have sub12: "?d1 \<subseteq> ?d2" using ih by (auto simp: dom_def)
    have un: "?d2 - ?d0 = (?d1 - ?d0) \<union> (?d2 - ?d1)" using sub01 sub12 by auto
    have dis: "(?d1 - ?d0) \<inter> (?d2 - ?d1) = {}" by auto
    have fin: "finite (?d2 - ?d0)" using un s(5) ih by simp
    have card: "card (?d2 - ?d0) = card (?d1 - ?d0) + card (?d2 - ?d1)"
      using un card_Un_disjoint [OF s(5) _ dis] ih by simp
    have len: "length h' = length h + card (?d2 - ?d0)"
      using s(6) ih card by simp
    have keep: "\<forall>k r0. indexedModels this k = Some r0 \<longrightarrow> indexedModels this' k = Some r0"
      using s(2) ih by blast
    have "length h \<le> length h1" using s(6) by simp
    then have "take (length h) h' = take (length h) (take (length h1) h')"
      by (simp add: min_def)
    also have "\<dots> = h" using ih s(3) by simp
    finally have pre: "take (length h) h' = h" .
    from keep pre ih fin len show ?thesis by blast
  qed
qed

lemma getValueForLocation_state:
  assumes "getValueForLocation env loc f st = Inr (v, h', this')"
  shows "\<exists>r. getIndexedModel env (unit_model loc) st = Inr (r, h', this')"
  using assms
  by (auto simp: getValueForLocation_def Let_def split: sum.splits annotation_data.splits)

subsection \<open>Loading the files\<close>

lemma format_name_inj: "format_name f = format_name g \<longleftrightarrow> f = g"
  by (cases f; cases g) (simp_all add: format_name_def)

lemma format_name_colon:
  "format_name f @ CHR '':'' # u = format_name g @ CHR '':'' # v \<longleftrightarrow> f = g \<and> u = v"
  by (cases f; cases g) (auto simp: format_name_def)

lemma source_key_inj:
  "source_key a = source_key b \<longleftrightarrow> format a = format b \<and> url a = url b"
  by (simp add: source_key_def format_name_colon)

lemma update_fresh: "map_of ps k = None \<Longrightarrow> AList.update k v ps = ps @ [(k, v)]"
  by (induction ps) (auto split: if_splits)

lemma map_err_Inr:
  "map_err f xs = Inr ys \<longleftrightarrow> length ys = length xs \<and> (\<forall>i<length xs. f (xs ! i) = Inr (ys ! i))"
proof (induction xs arbitrary: ys)
  case Nil
  then show ?case by auto
next
  case (Cons x xs)
  show ?case
  proof (cases "f x")
    case (Inl e)
    then show ?thesis by (auto)
  next
    case (Inr y)
    show ?thesis
    proof (cases "map_err f xs")
      case (Inl e)
      have "\<not> (length (tl ys) = length xs \<and> (\<forall>i<length xs. f (xs ! i) = Inr (tl ys ! i)))"
        using Cons.IH [of "tl ys"] Inl by simp
      then have "\<not> (length ys = length (x # xs) \<and> (\<forall>i<length (x # xs). f ((x # xs) ! i) = Inr (ys ! i)))"
        by (cases ys) (auto simp: nth_Cons split: nat.splits)
      then show ?thesis using Inr Inl by simp
    next
      case r: (Inr zs)
      have ih: "length zs = length xs \<and> (\<forall>i<length xs. f (xs ! i) = Inr (zs ! i))"
        using Cons.IH [of zs] r by simp
      show ?thesis
      proof
        assume "map_err f (x # xs) = Inr ys"
        then have "ys = y # zs" using Inr r by simp
        then show "length ys = length (x # xs) \<and> (\<forall>i<length (x # xs). f ((x # xs) ! i) = Inr (ys ! i))"
          using ih Inr by (auto simp: nth_Cons split: nat.splits)
      next
        assume a: "length ys = length (x # xs) \<and> (\<forall>i<length (x # xs). f ((x # xs) ! i) = Inr (ys ! i))"
        then obtain y' zs' where ys: "ys = y' # zs'" by (cases ys) auto
        from a ys have "f x = Inr y'" by auto
        then have y': "y' = y" using Inr by simp
        from a ys have "length zs' = length xs \<and> (\<forall>i<length xs. f (xs ! i) = Inr (zs' ! i))"
          by auto
        then have "map_err f xs = Inr zs'" using Cons.IH [of zs'] by simp
        then show "map_err f (x # xs) = Inr ys" using Inr ys y' by simp
      qed
    qed
  qed
qed

lemma map_err_Inl: "map_err f xs = Inl e \<Longrightarrow> \<exists>x\<in>set xs. f x = Inl e"
  by (induction xs) (auto split: sum.splits)

lemma map_err_all_Inr:
  "\<forall>x\<in>set xs. \<exists>y. f x = Inr y \<Longrightarrow> \<exists>ys. map_err f xs = Inr ys"
  by (induction xs) (auto split: sum.splits)

lemma map_of_zip_keys_None:
  "length ks = length vs \<Longrightarrow> map_of (zip ks vs) k = None \<longleftrightarrow> k \<notin> set ks"
  by (induction ks vs rule: list_induct2) auto

lemma install_inv:
  assumes "promises_inv st"
  shows "promises_inv (install src st)"
    and "set (map source_key (snd (install src st))) = insert (source_key src) (set (map source_key (snd st)))"
    and "\<exists>more. snd (install src st) = snd st @ more"
proof -
  obtain promises issued where st: "st = (promises, issued)" by (cases st)
  from assms st have p: "promises = zip (map source_key issued) [0..<length issued]"
    and d: "distinct (map source_key issued)" by (simp_all add: promises_inv_def)
  have none: "map_of promises (source_key src) = None \<longleftrightarrow> source_key src \<notin> set (map source_key issued)"
    unfolding p by (rule map_of_zip_keys_None) simp
  show "promises_inv (install src st)"
  proof (cases "map_of promises (source_key src)")
    case None
    then have fresh: "source_key src \<notin> set (map source_key issued)" using none by simp
    have "AList.update (source_key src) (length issued) promises
        = zip (map source_key (issued @ [src])) [0..<length (issued @ [src])]"
      using update_fresh [OF None] p by simp
    then show ?thesis using None fresh d st
      by (simp add: install_def promises_inv_def)
  next
    case (Some a)
    then show ?thesis using assms st by (simp add: install_def)
  qed
  show "set (map source_key (snd (install src st))) = insert (source_key src) (set (map source_key (snd st)))"
    using none st by (cases "map_of promises (source_key src)") (auto simp: install_def)
  show "\<exists>more. snd (install src st) = snd st @ more"
    using st by (cases "map_of promises (source_key src)") (auto simp: install_def)
qed

lemma fold_install_inv:
  assumes "promises_inv st"
  shows "promises_inv (fold install sources st)
       \<and> set (map source_key (snd (fold install sources st)))
           = set (map source_key sources) \<union> set (map source_key (snd st))
       \<and> set (snd (fold install sources st)) \<subseteq> set sources \<union> set (snd st)"
  using assms
proof (induction sources arbitrary: st)
  case Nil
  then show ?case by simp
next
  case (Cons src sources)
  note i = install_inv [OF Cons.prems, of src]
  have sub: "set (snd (install src st)) \<subseteq> insert src (set (snd st))"
    by (cases st) (auto simp: install_def Let_def split: option.splits)
  from Cons.IH [OF i(1)] i(2) sub show ?case by auto
qed

lemma install_all_inv:
  "promises_inv (install_all sources)
   \<and> set (map source_key (snd (install_all sources))) = set (map source_key sources)
   \<and> set (snd (install_all sources)) \<subseteq> set sources"
proof -
  have "promises_inv ([], [])" by (simp add: promises_inv_def)
  from fold_install_inv [OF this, of sources] show ?thesis by (simp add: install_all_def)
qed

lemma objectFromKeysAndValues_prefix:
  assumes "distinct keys" and "length vals = length keys" and "k \<le> length keys"
  shows "fold (\<lambda>i obj. AList.update (keys ! i) (vals ! i) obj) [0..<k] []
           = zip (take k keys) (take k vals)"
  using assms(3)
proof (induction k)
  case 0
  then show ?case by simp
next
  case (Suc k)
  then have k: "k < length keys" by simp
  have ih: "fold (\<lambda>i obj. AList.update (keys ! i) (vals ! i) obj) [0..<k] []
           = zip (take k keys) (take k vals)"
    using Suc by simp
  have "keys ! k \<notin> set (take k keys)"
    using assms(1) k by (auto simp: in_set_conv_nth nth_eq_iff_index_eq)
  then have none: "map_of (zip (take k keys) (take k vals)) (keys ! k) = None"
    using map_of_zip_keys_None [of "take k keys" "take k vals" "keys ! k"] assms(2) k by simp
  have "zip (take (Suc k) keys) (take (Suc k) vals)
      = zip (take k keys) (take k vals) @ [(keys ! k, vals ! k)]"
    using k assms(2) by (simp add: take_Suc_conv_app_nth)
  then show ?case using ih update_fresh [OF none] by simp
qed

lemma objectFromKeysAndValues_zip:
  "distinct keys \<Longrightarrow> length vals = length keys \<Longrightarrow> objectFromKeysAndValues keys vals = zip keys vals"
  using objectFromKeysAndValues_prefix [of keys vals "length keys"]
  by (simp add: objectFromKeysAndValues_def)

lemma source_key_eq_pair:
  "source_key a = source_key b \<longleftrightarrow> (format a, url a) = (format b, url b)"
  by (simp add: source_key_inj)

lemma distinct_map_source_key:
  "distinct (map source_key xs) \<longleftrightarrow> distinct (map (\<lambda>s. (format s, url s)) xs)"
  by (induction xs) (auto simp: source_key_inj image_iff)

lemma set_map_source_key:
  "source_key ` A = source_key ` B
     \<longleftrightarrow> (\<lambda>s. (format s, url s)) ` A = (\<lambda>s. (format s, url s)) ` B"
proof -
  let ?g = "\<lambda>p. format_name (fst p) @ '':'' @ snd p"
  have inj: "inj ?g"
    by (auto simp: inj_on_def format_name_colon)
  have img: "source_key ` C = ?g ` ((\<lambda>s. (format s, url s)) ` C)" for C
    by (simp add: image_image source_key_def)
  show ?thesis
    unfolding img by (rule inj_image_eq_iff [OF inj])
qed

lemma promise_of_source:
  assumes "i < length sources"
  shows "\<exists>p<length (snd (install_all sources)).
           map_of (fst (install_all sources)) (source_key (sources ! i)) = Some p
           \<and> source_key (snd (install_all sources) ! p) = source_key (sources ! i)"
proof -
  let ?issued = "snd (install_all sources)"
  let ?keys = "map source_key ?issued"
  from install_all_inv [of sources]
  have p: "fst (install_all sources) = zip ?keys [0..<length ?issued]"
    and d: "distinct ?keys" and s: "set ?keys = set (map source_key sources)"
    by (simp_all add: promises_inv_def)
  have "source_key (sources ! i) \<in> set ?keys" using s assms by simp
  then obtain p where pl: "p < length ?issued" and pk: "?keys ! p = source_key (sources ! i)"
    by (auto simp: in_set_conv_nth)
  have "map_of (zip ?keys [0..<length ?issued]) (?keys ! p) = Some ([0..<length ?issued] ! p)"
    by (rule map_of_zip_nth) (use d pl in simp_all)
  then have "map_of (fst (install_all sources)) (source_key (sources ! i)) = Some p"
    using p pk pl by simp
  with pl pk show ?thesis by auto
qed

lemma getFileFromSources_files:
  assumes "snd (getFileFromSources ctx sources) = Inr files" and "i < length sources"
  shows "length files = length sources"
    and "\<exists>p<length (snd (install_all sources)). \<exists>f.
           source_key (snd (install_all sources) ! p) = source_key (sources ! i)
           \<and> getFileFromSource ctx (snd (install_all sources) ! p) = Inr f
           \<and> files ! i = Some f"
proof -
  let ?issued = "snd (install_all sources)"
  let ?keys = "map source_key ?issued"
  let ?settle = "\<lambda>p. getFileFromSource ctx (?issued ! p)"
  from install_all_inv [of sources]
  have p: "fst (install_all sources) = zip ?keys [0..<length ?issued]"
    and d: "distinct ?keys"
    by (simp_all add: promises_inv_def)
  have fs: "map fst (fst (install_all sources)) = ?keys"
    and sn: "map snd (fst (install_all sources)) = [0..<length ?issued]"
    unfolding p by simp_all
  from assms(1) obtain results where
    all: "map_err ?settle [0..<length ?issued] = Inr results"
    and files: "files = map (\<lambda>src. map_of (objectFromKeysAndValues ?keys results) (source_key src)) sources"
    by (auto simp: getFileFromSources_def promiseAllObj_def Let_def fs sn split: sum.splits)
  from all have len: "length results = length ?issued"
    and each: "\<forall>p<length ?issued. ?settle p = Inr (results ! p)"
    by (auto simp: map_err_Inr)
  have obj: "objectFromKeysAndValues ?keys results = zip ?keys results"
    by (rule objectFromKeysAndValues_zip) (use d len in simp_all)
  show "length files = length sources" using files by simp
  from promise_of_source [OF assms(2)]
  obtain q where q: "q < length ?issued" "source_key (?issued ! q) = source_key (sources ! i)"
    by auto
  have "map_of (zip ?keys results) (?keys ! q) = Some (results ! q)"
    by (rule map_of_zip_nth) (use d len q in simp_all)
  then have "files ! i = Some (results ! q)"
    using files obj q assms(2) by simp
  moreover have "?settle q = Inr (results ! q)" using each q by simp
  ultimately show "\<exists>p<length ?issued. \<exists>f.
           source_key (?issued ! p) = source_key (sources ! i)
           \<and> getFileFromSource ctx (?issued ! p) = Inr f
           \<and> files ! i = Some f"
    using q by blast
qed

lemma getFileFromSources_succeeds:
  assumes "\<forall>src\<in>set sources. \<exists>f. getFileFromSource ctx src = Inr f"
  shows "\<exists>files. snd (getFileFromSources ctx sources) = Inr files"
proof -
  let ?issued = "snd (install_all sources)"
  let ?settle = "\<lambda>p. getFileFromSource ctx (?issued ! p)"
  have sub: "set ?issued \<subseteq> set sources" using install_all_inv [of sources] by simp
  have "\<forall>p\<in>set [0..<length ?issued]. \<exists>y. ?settle p = Inr y"
    using assms sub by (auto simp: subset_iff)
  from map_err_all_Inr [OF this] obtain results
    where "map_err ?settle [0..<length ?issued] = Inr results" by auto
  moreover have "map snd (fst (install_all sources)) = [0..<length ?issued]"
    using install_all_inv [of sources] by (simp add: promises_inv_def)
  ultimately show ?thesis
    by (simp add: getFileFromSources_def promiseAllObj_def Let_def)
qed

lemma fst_getFileFromSources: "fst (getFileFromSources ctx sources) = snd (install_all sources)"
  by (simp add: getFileFromSources_def Let_def)

subsection \<open>Blocks and categories\<close>




subsection \<open>Rows of a CIF category\<close>

lemma map_of_fold_obj_set:
  "map_of (fold (\<lambda>col row. if P col then obj_set col (v col) row else row) cols acc) c
     = (if c \<in> set cols \<and> P c then Some (v c) else map_of acc c)"
  by (induction cols arbitrary: acc) (auto simp: obj_set_def update_conv')

lemma map_of_table_row:
  "map_of (table_row t iRow) col
     = (if col \<in> set (tbl_columns t) \<and> col_valueKind (tbl_column t col) (int iRow) = Present
        then Some (col_value (tbl_column t col) (int iRow)) else None)"
  unfolding table_row_def
  using map_of_fold_obj_set [of "\<lambda>col. col_valueKind (tbl_column t col) (int iRow) = Present"
      "\<lambda>col. col_value (tbl_column t col) (int iRow)" "tbl_columns t" "[]" col]
  by simp

lemma keys_map_of: "k \<in> fst ` set al \<longleftrightarrow> map_of al k \<noteq> None"
  by (simp add: map_of_eq_None_iff)

lemma getRowsFromTable_rows:
  "length (getRowsFromTable t) = tbl_rowCount t
   \<and> (\<forall>i<tbl_rowCount t. \<forall>col.
         (col \<in> fst ` set (getRowsFromTable t ! i)
            \<longleftrightarrow> col \<in> set (tbl_columns t) \<and> col_valueKind (tbl_column t col) (int i) = Present)
         \<and> (col \<in> fst ` set (getRowsFromTable t ! i)
            \<longrightarrow> map_of (getRowsFromTable t ! i) col = Some (col_value (tbl_column t col) (int i))))"
  by (simp add: getRowsFromTable_def keys_map_of map_of_table_row)

lemma pickObjectKeys_object: "\<exists>picked. pickObjectKeys (JObj kvs) keys = Inr picked"
  by (simp add: pickObjectKeys_def is_nullish_def)

subsection \<open>The field accessors\<close>

lemma getValueFromJson_array:
  "getValueFromJson i f (JArr rows)
     = Inr (if is_nullish (nth_js rows i) then JUndefined else get_prop (nth_js rows i) f)"
  by (simp add: getValueFromJson_def isArray_def nullish_or_def member_def is_nullish_def lookup_def)

lemma getValueFromJson_object:
  "getValueFromJson i f (JObj cols)
     = Inr (if is_nullish (lookup cols f) then JUndefined else get_index (lookup cols f) i)"
  by (simp add: getValueFromJson_def isArray_def nullish_or_def member_def member_index_def
      is_nullish_def nth_js_def)

lemma nth_js_out_of_range: "i < 0 \<or> int (length xs) \<le> i \<Longrightarrow> nth_js xs i = JUndefined"
  by (auto simp: nth_js_def)

lemma getValueFromCif_no_row:
  "getField cat f = Some column \<Longrightarrow> field_valueKind column (- 1) = Present \<Longrightarrow>
   getValueFromCif (- 1) f cat = JStr (field_str column (- 1))"
  by (simp add: getValueFromCif_def)

lemma getValueFromJson_null: "getValueFromJson i f JNull = Inl TypeError"
  by (simp add: getValueFromJson_def isArray_def member_def is_nullish_def)

lemma getValueForLocation_fails:
  assumes "indexedModels this (model_id (unit_model loc)) = None" and "getRows env this = Inl e"
  shows "getValueForLocation env loc f (h, this) = Inl e"
  using assms
  by (simp add: getValueForLocation_def getIndexedModel_def getRowForEachAtom_def Let_def)

text \<open>
  What the accessors return. The JSON accessor returns the value as it stands, and
  \<open>undefined\<close> for a missing key or a row index outside the data; it throws on nothing
  but a \<open>null\<close> document. The CIF accessor returns the string of the column where the
  column says the value is present, for whatever row index it is given.
\<close>

lemma field_accessor_values:
  "(isArray js \<longrightarrow> getValueFromJson (- 1) f js = Inr JUndefined)
   \<and> ((i < 0 \<or> int (length rows) \<le> i) \<longrightarrow> getValueFromJson i f (JArr rows) = Inr JUndefined)
   \<and> (0 \<le> i \<and> i < int (length rows) \<and> rows ! nat i = JObj kvs \<longrightarrow>
         getValueFromJson i f (JArr rows)
           = Inr (case map_of kvs f of None \<Rightarrow> JUndefined | Some v \<Rightarrow> v))
   \<and> (\<exists>v. getValueFromJson i f (JArr rows) = Inr v)
   \<and> (map_of cols f = None \<longrightarrow> getValueFromJson i f (JObj cols) = Inr JUndefined)
   \<and> (map_of cols f = Some (JArr xs) \<and> (i < 0 \<or> int (length xs) \<le> i) \<longrightarrow>
         getValueFromJson i f (JObj cols) = Inr JUndefined)
   \<and> (map_of cols f = Some (JArr xs) \<and> 0 \<le> i \<and> i < int (length xs) \<longrightarrow>
         getValueFromJson i f (JObj cols) = Inr (xs ! nat i))
   \<and> (\<exists>v. getValueFromJson i f (JObj cols) = Inr v)
   \<and> (getField cat f = None \<longrightarrow> getValueFromCif i f cat = JUndefined)
   \<and> (\<forall>column. getField cat f = Some column \<longrightarrow>
         getValueFromCif i f cat
           = (if field_valueKind column i = Present then JStr (field_str column i) else JUndefined))"
proof -
  have a: "isArray js \<longrightarrow> getValueFromJson (- 1) f js = Inr JUndefined"
    by (cases js) (simp_all add: isArray_def getValueFromJson_array nth_js_def is_nullish_def)
  have b: "(i < 0 \<or> int (length rows) \<le> i) \<longrightarrow> getValueFromJson i f (JArr rows) = Inr JUndefined"
    using nth_js_out_of_range [of i rows] by (auto simp: getValueFromJson_array is_nullish_def)
  have c: "0 \<le> i \<and> i < int (length rows) \<and> rows ! nat i = JObj kvs \<longrightarrow>
         getValueFromJson i f (JArr rows)
           = Inr (case map_of kvs f of None \<Rightarrow> JUndefined | Some v \<Rightarrow> v)"
    by (auto simp: getValueFromJson_array nth_js_def is_nullish_def lookup_def)
  have d: "\<exists>v. getValueFromJson i f (JArr rows) = Inr v"
    by (simp add: getValueFromJson_array)
  have e: "map_of cols f = None \<longrightarrow> getValueFromJson i f (JObj cols) = Inr JUndefined"
    by (simp add: getValueFromJson_object lookup_def is_nullish_def)
  have g: "map_of cols f = Some (JArr xs) \<and> (i < 0 \<or> int (length xs) \<le> i) \<longrightarrow>
         getValueFromJson i f (JObj cols) = Inr JUndefined"
    using nth_js_out_of_range [of i xs]
    by (auto simp: getValueFromJson_object lookup_def is_nullish_def)
  have h: "map_of cols f = Some (JArr xs) \<and> 0 \<le> i \<and> i < int (length xs) \<longrightarrow>
         getValueFromJson i f (JObj cols) = Inr (xs ! nat i)"
    by (auto simp: getValueFromJson_object lookup_def is_nullish_def nth_js_def)
  have k: "\<exists>v. getValueFromJson i f (JObj cols) = Inr v"
    by (simp add: getValueFromJson_object)
  have l: "getField cat f = None \<longrightarrow> getValueFromCif i f cat = JUndefined"
    by (simp add: getValueFromCif_def)
  have m: "\<forall>column. getField cat f = Some column \<longrightarrow>
         getValueFromCif i f cat
           = (if field_valueKind column i = Present then JStr (field_str column i) else JUndefined)"
    by (simp add: getValueFromCif_def)
  from a b c d e g h k l m show ?thesis by - (intro conjI; assumption)
qed

lemma field_accessor_values_examples:
  "getValueFromJson (- 1) ''color'' ex_json = Inr JUndefined
   \<and> getValueFromJson 1 ''color'' ex_json = Inr (JStr ''blue'')
   \<and> getValueFromJson 1 ''tooltip'' ex_json = Inr JUndefined
   \<and> getValueFromJson 2 ''color'' (JObj ex_cols) = Inr (JStr ''green'')
   \<and> getValueFromJson (- 1) ''color'' (JObj ex_cols) = Inr JUndefined
   \<and> getValueFromJson 0 ''tooltip'' (JObj ex_cols) = Inr JUndefined
   \<and> getValueFromCif 0 ''tooltip'' ex_category = JUndefined
   \<and> getValueFromCif 0 ''color'' ex_category = JStr ''red''
   \<and> getValueFromCif 1 ''color'' ex_category = JUndefined"
proof -
  let ?row = "[(''label_asym_id'', JStr ''A''), (''beg_label_seq_id'', JNum 15),
                 (''end_label_seq_id'', JNum 15), (''color'', JStr ''blue'')]"
  let ?rows = "[JObj [(''label_asym_id'', JStr ''A''), (''beg_label_seq_id'', JNum 10),
                 (''end_label_seq_id'', JNum 20), (''color'', JStr ''red'')], JObj ?row]"
  let ?col = "[JStr ''red'', JStr ''blue'', JStr ''green'']"
  let ?field = "\<lparr>field_valueKind = (\<lambda>i. if i = 0 then Present else NotPresent),
           field_str = (\<lambda>i. if i = 0 then ''red'' else [])\<rparr>"
  have j: "ex_json = JArr ?rows" by (simp add: ex_json_def)
  have arr: "isArray ex_json" by (simp add: j isArray_def)
  have r1: "(0::int) \<le> 1 \<and> (1::int) < int (length ?rows) \<and> ?rows ! nat 1 = JObj ?row" by simp
  have c: "map_of ex_cols ''color'' = Some (JArr ?col)" by (simp add: ex_cols_def)
  have c2: "map_of ex_cols ''color'' = Some (JArr ?col) \<and> (0::int) \<le> 2 \<and> (2::int) < int (length ?col)"
    using c by simp
  have cm: "map_of ex_cols ''color'' = Some (JArr ?col) \<and> ((- 1::int) < 0 \<or> int (length ?col) \<le> - 1)"
    using c by simp
  have t: "map_of ex_cols ''tooltip'' = None" by (simp add: ex_cols_def)
  have ft: "getField ex_category ''tooltip'' = None" by (simp add: getField_def ex_category_def)
  have fc: "getField ex_category ''color'' = Some ?field" by (simp add: getField_def ex_category_def)
  from field_accessor_values [of ex_json "''color''" 1 ?rows ?row ex_cols ?col ex_category] arr r1
  have a1: "getValueFromJson (- 1) ''color'' ex_json = Inr JUndefined"
    and a2: "getValueFromJson 1 ''color'' ex_json = Inr (JStr ''blue'')"
    by (simp_all add: j [symmetric])
  from field_accessor_values [of ex_json "''tooltip''" 1 ?rows ?row ex_cols ?col ex_category] r1
  have a3: "getValueFromJson 1 ''tooltip'' ex_json = Inr JUndefined"
    by (simp add: j [symmetric])
  from field_accessor_values [of ex_json "''color''" 2 ?rows ?row ex_cols ?col ex_category] c2
  have a4: "getValueFromJson 2 ''color'' (JObj ex_cols) = Inr (JStr ''green'')"
    by simp
  from field_accessor_values [of ex_json "''color''" "- 1" ?rows ?row ex_cols ?col ex_category] cm
  have a5: "getValueFromJson (- 1) ''color'' (JObj ex_cols) = Inr JUndefined"
    by simp
  from field_accessor_values [of ex_json "''tooltip''" 0 ?rows ?row ex_cols ?col ex_category] t ft
  have a6: "getValueFromJson 0 ''tooltip'' (JObj ex_cols) = Inr JUndefined"
    and a7: "getValueFromCif 0 ''tooltip'' ex_category = JUndefined"
    by simp_all
  from field_accessor_values [of ex_json "''color''" 0 ?rows ?row ex_cols ?col ex_category] fc
  have a8: "getValueFromCif 0 ''color'' ex_category = JStr ''red''"
    by simp
  from field_accessor_values [of ex_json "''color''" 1 ?rows ?row ex_cols ?col ex_category] fc
  have a9: "getValueFromCif 1 ''color'' ex_category = JUndefined"
    by simp
  from a1 a2 a3 a4 a5 a6 a7 a8 a9 show ?thesis by (intro conjI)
qed

subsection \<open>Rows of a JSON object of arrays\<close>

lemma column_array_length:
  "column_array cols key = Some xs \<Longrightarrow>
   member (get_prop (JObj cols) key) ''length'' = Inr (JNum (int (length xs)))"
  by (auto simp: column_array_def member_def is_nullish_def split: jsval.splits)

lemma some_length_differs_arrays:
  assumes "\<forall>key\<in>set ks. \<exists>xs. column_array cols key = Some xs"
  shows "some_length_differs (JObj cols) n ks
           = Inr (\<exists>key\<in>set ks. \<exists>xs. column_array cols key = Some xs \<and> JNum (int (length xs)) \<noteq> n)"
  using assms
proof (induction ks)
  case Nil
  then show ?case by simp
next
  case (Cons key ks)
  from Cons.prems obtain xs where xs: "column_array cols key = Some xs" by auto
  have ih: "some_length_differs (JObj cols) n ks
           = Inr (\<exists>key\<in>set ks. \<exists>xs. column_array cols key = Some xs \<and> JNum (int (length xs)) \<noteq> n)"
    using Cons by simp
  show ?case
    using column_array_length [OF xs] xs ih by auto
qed

lemma map_of_row_at:
  "map_of (row_at js keys i) key
     = (if key \<in> set keys then Some (get_index (get_prop js key) (int i)) else None)"
  unfolding row_at_def
  using map_of_fold_obj_set [of "\<lambda>_. True" "\<lambda>key. get_index (get_prop js key) (int i)" keys "[]" key]
  by simp

lemma keys_row_at: "fst ` set (row_at js keys i) = set keys"
proof -
  have "key \<in> fst ` set (row_at js keys i) \<longleftrightarrow> key \<in> set keys" for key
    by (simp add: keys_map_of map_of_row_at)
  then show ?thesis by blast
qed

lemma getRowsFromJson_object:
  "getRowsFromJson F (JObj cols) sch =
     (let keys = filter (\<lambda>key. key \<in> set (F sch)) (map fst cols) in
      if keys = [] then Inr []
      else (case member (get_prop (JObj cols) (hd keys)) ''length'' of
              Inl e \<Rightarrow> Inl e
            | Inr n \<Rightarrow>
                (case some_length_differs (JObj cols) n keys of
                   Inl e \<Rightarrow> Inl e
                 | Inr True \<Rightarrow> Inl (Error ''FormatError: arrays must have the same length.'')
                 | Inr False \<Rightarrow> Inr (map (row_at (JObj cols) keys) [0..<loop_bound n]))))"
  by (simp add: getRowsFromJson_def objectKeys_def Let_def)

subsection \<open>The collection\<close>



subsection \<open>The example inputs evaluated\<close>

lemma ex_helpers: "with_spec_helpers ex_env = ex_env"
  by (simp add: with_spec_helpers_def ex_env_def)

lemma ex_resolve: "getRowForEachAtom ex_env ex_annotation ex_model = Inr [0, 1, - 1]"
  by code_simp

lemma ex_install:
  "install_all ex_specs = ([(''json:a.json'', 0), (''cif:b.cif'', 1)], [ex_spec1, ex_spec3])"
  by code_simp

lemma ex_keys:
  "source_key ex_spec1 = ''json:a.json''" "source_key ex_spec2 = ''json:a.json''"
  "source_key ex_spec3 = ''cif:b.cif''"
  by code_simp+

lemma ex_fetch:
  "getFileFromSource ex_ctx ex_spec1 = Inr (JsonFile ex_json)"
  "getFileFromSource ex_ctx ex_spec3 = Inr (CifFile ex_cif)"
  by (simp_all add: getFileFromSource_def ex_ctx_def ex_spec1_def ex_spec3_def
      AnnotationFormatTypes_def)

lemma ex_files:
  "snd (getFileFromSources ex_ctx ex_specs)
     = Inr [Some (JsonFile ex_json), Some (JsonFile ex_json), Some (CifFile ex_cif)]"
proof -
  have u: "[0..<2] = [0, Suc 0]" by (simp add: upt_rec)
  show ?thesis
    by (simp add: getFileFromSources_def ex_install promiseAllObj_def ex_fetch
        objectFromKeysAndValues_def u)
       (simp add: ex_specs_def ex_keys)
qed




lemma ex_wanted_keys:
  "filter (\<lambda>key. key \<in> set (ex_fields ResidueRange)) (map fst ex_cols)
     = [''label_asym_id'', ''beg_label_seq_id'', ''end_label_seq_id'']"
  "filter (\<lambda>key. key \<in> set (ex_fields ResidueRange)) (map fst ex_bad_cols)
     = [''label_asym_id'', ''beg_label_seq_id'', ''end_label_seq_id'']"
  by (simp_all add: ex_fields_def ex_cols_def ex_bad_cols_def)

lemma ex_column_arrays:
  "column_array ex_cols ''label_asym_id'' = Some [JStr ''A'', JStr ''A'']"
  "column_array ex_cols ''beg_label_seq_id'' = Some [JNum 10, JNum 15]"
  "column_array ex_cols ''end_label_seq_id'' = Some [JNum 20, JNum 15]"
  "column_array ex_bad_cols ''label_asym_id'' = Some [JStr ''A'', JStr ''A'']"
  "column_array ex_bad_cols ''beg_label_seq_id'' = Some [JNum 10]"
  "column_array ex_bad_cols ''end_label_seq_id'' = Some [JNum 20, JNum 15]"
  by (simp_all add: column_array_def lookup_def ex_cols_def ex_bad_cols_def)



lemma ex_cifSchema:
  "pickObjectKeys (JObj (CIFAnnotationSchema ex_env)) (FieldsForSchemas ex_env Residue)
     = Inr [(''label_asym_id'', JStr ''str''), (''label_seq_id'', JStr ''int'')]"
  by code_simp

section \<open>The claims\<close>

text \<open>
  Claim C1. For every model, every annotation and every atom of the model, the row index
  that \<open>getRowForEachAtom\<close> stores for the atom names the row that the reference
  resolver \<open>getAnnotationForLocation_Reference\<close> returns for it (the last row in list
  order for which \<open>atomQualifies\<close> holds), and the index is \<open>-1\<close> exactly when the
  reference resolver finds no row; when the rows cannot be parsed, both fail alike. The
  helpers are the ones modelled from the specification.
\<close>

theorem indexed_resolver_equals_reference:
  assumes "i < nAtoms m"
  shows "case getRows env this of
           Inl e \<Rightarrow>
             getRowForEachAtom (with_spec_helpers env) this m = Inl e
             \<and> getAnnotationForLocation_Reference (with_spec_helpers env) this
                 \<lparr>unit_model = m, element = i\<rparr> = Inl e
         | Inr rows \<Rightarrow>
             (\<exists>result. getRowForEachAtom (with_spec_helpers env) this m = Inr result
                \<and> getAnnotationForLocation_Reference (with_spec_helpers env) this
                    \<lparr>unit_model = m, element = i\<rparr> = Inr (row_of_index rows (result ! i)))"
proof (cases "getRows env this")
  case (Inl e)
  then show ?thesis
    by (simp add: getRowForEachAtom_def getAnnotationForLocation_Reference_def
        getRows_with_spec_helpers)
next
  case (Inr rows)
  have rows: "getRows (with_spec_helpers env) this = Inr rows"
    using Inr by (simp add: getRows_with_spec_helpers)
  have agree: "\<forall>j<length rows. atomQualifies (with_spec_helpers env) m i (rows ! j)
      \<longleftrightarrow> covers (getAtomRangesForRow (with_spec_helpers env) m (rows ! j)) i"
    by (simp add: with_spec_helpers_def spec_helpers_agree)
  from indexed_eq_reference_generic [OF rows agree assms] Inr show ?thesis by simp
qed

theorem indexed_resolver_equals_reference_witness:
  "(1::nat) < nAtoms ex_model
   \<and> getRowForEachAtom ex_env ex_annotation ex_model = Inr [0, 1, - 1]
   \<and> getAnnotationForLocation_Reference ex_env ex_annotation
        \<lparr>unit_model = ex_model, element = 1\<rparr> = Inr (Some (ex_rows ! 1))"
proof -
  have n: "(1::nat) < nAtoms ex_model" by (simp add: nAtoms_def ex_model_def)
  have rows: "getRows ex_env ex_annotation = Inr ex_rows" by code_simp
  have res: "getRowForEachAtom ex_env ex_annotation ex_model = Inr [0, 1, - 1]" by code_simp
  from indexed_resolver_equals_reference [OF n, of ex_env ex_annotation]
  have "getAnnotationForLocation_Reference ex_env ex_annotation
        \<lparr>unit_model = ex_model, element = 1\<rparr> = Inr (row_of_index ex_rows ([0, 1, - 1] ! 1))"
    using rows res by (simp add: ex_helpers)
  then have "getAnnotationForLocation_Reference ex_env ex_annotation
        \<lparr>unit_model = ex_model, element = 1\<rparr> = Inr (Some (ex_rows ! 1))"
    by (simp add: row_of_index_def ex_rows_def)
  with n res show ?thesis by simp
qed

text \<open>
  Claim C2. For a model with \<open>n\<close> atoms and the rows of the annotation in their order,
  \<open>getRowForEachAtom\<close> returns an array of length \<open>n\<close> whose entry \<open>i\<close> is the greatest
  index of a row whose atom ranges cover atom \<open>i\<close>, and \<open>-1\<close> when no row's ranges cover
  it. So where the ranges of two rows overlap, the later row wins. (The function fails
  only when the rows cannot be parsed.)
\<close>

theorem getRowForEachAtom_last_covering_row:
  assumes "getRows env this = Inr rows"
  shows "\<exists>result. getRowForEachAtom env this m = Inr result
           \<and> length result = nAtoms m
           \<and> (\<forall>i<nAtoms m. is_last_match env m rows i (result ! i))"
  using assms fill_rows_last_match [of env m rows "nAtoms m"]
  by (simp add: getRowForEachAtom_def)

theorem getRowForEachAtom_last_covering_row_witness:
  "getRows ex_env ex_annotation = Inr ex_rows
   \<and> getRowForEachAtom ex_env ex_annotation ex_model = Inr [0, 1, - 1]
   \<and> is_last_match ex_env ex_model ex_rows 1 1
   \<and> is_last_match ex_env ex_model ex_rows 2 (- 1)"
proof -
  have rows: "getRows ex_env ex_annotation = Inr ex_rows" by code_simp
  have res: "getRowForEachAtom ex_env ex_annotation ex_model = Inr [0, 1, - 1]" by code_simp
  from getRowForEachAtom_last_covering_row [OF rows, of ex_model] res
  have all: "\<forall>i<nAtoms ex_model. is_last_match ex_env ex_model ex_rows i ([0, 1, - 1] ! i)"
    by simp
  have n: "nAtoms ex_model = 3" by (simp add: nAtoms_def ex_model_def)
  from all [rule_format, of 1] all [rule_format, of 2] n
  have "is_last_match ex_env ex_model ex_rows 1 1"
    and "is_last_match ex_env ex_model ex_rows 2 (- 1)"
    by simp_all
  with rows res show ?thesis by simp
qed

text \<open>
  Claim C3. Once \<open>getIndexedModel\<close> has returned an array for a model, every later query
  of the same annotation for the same model id, after any sequence of other queries,
  returns the same array reference and leaves the heap and the annotation as they are:
  nothing is computed or allocated again, and the array is the one \<open>getRowForEachAtom\<close>
  gave. No entry of \<open>indexedModels\<close> is ever removed or replaced, and the number of
  arrays allocated is the number of model ids that entered the map: one computation is
  stored per model id.
\<close>

theorem getIndexedModel_cached_once:
  assumes "wf_state (h, this)"
      and "getIndexedModel env m (h, this) = Inr (r, h1, this1)"
      and "queries env ms (h1, this1) = (h2, this2)"
  shows "getIndexedModel env m (h2, this2) = Inr (r, h2, this2)
       \<and> h2 ! r = h1 ! r
       \<and> (indexedModels this (model_id m) = None \<longrightarrow> getRowForEachAtom env this m = Inr (h1 ! r))
       \<and> (\<forall>k r0. indexedModels this k = Some r0 \<longrightarrow> indexedModels this2 k = Some r0)
       \<and> length h2 = length h + card (dom (indexedModels this2) - dom (indexedModels this))"
proof -
  have first: "indexedModels this (model_id m) = None \<longrightarrow> getRowForEachAtom env this m = Inr (h1 ! r)"
    using getIndexedModel_miss [OF _ assms(2)] by auto
  note s = getIndexedModel_step [OF assms(1,2)]
  note i = queries_invariant [OF s(4) assms(3)]
  have stored: "indexedModels this2 (model_id m) = Some r" using s(1) i by blast
  then have again: "getIndexedModel env m (h2, this2) = Inr (r, h2, this2)"
    by (rule getIndexedModel_hit)
  have "r < length h1" using s(1,4) by (auto simp: wf_state_def)
  moreover have "take (length h1) h2 = h1" using i by simp
  ultimately have same: "h2 ! r = h1 ! r" by (metis nth_take)
  have keep: "\<forall>k r0. indexedModels this k = Some r0 \<longrightarrow> indexedModels this2 k = Some r0"
    using s(2) i by blast
  let ?d0 = "dom (indexedModels this)" and ?d1 = "dom (indexedModels this1)"
    and ?d2 = "dom (indexedModels this2)"
  have sub01: "?d0 \<subseteq> ?d1" using s(2) by (auto simp: dom_def)
  have sub12: "?d1 \<subseteq> ?d2" using i by (auto simp: dom_def)
  have un: "?d2 - ?d0 = (?d1 - ?d0) \<union> (?d2 - ?d1)" using sub01 sub12 by auto
  have dis: "(?d1 - ?d0) \<inter> (?d2 - ?d1) = {}" by auto
  have card: "card (?d2 - ?d0) = card (?d1 - ?d0) + card (?d2 - ?d1)"
    using un card_Un_disjoint [OF s(5) _ dis] i by simp
  have len: "length h2 = length h + card (?d2 - ?d0)"
    using s(6) i card by simp
  from again same first keep len show ?thesis by blast
qed

theorem getIndexedModel_cached_once_witness:
  "wf_state ([], ex_annotation)
   \<and> getIndexedModel ex_env ex_model ([], ex_annotation) = Inr (0, [[0, 1, - 1]], ex_cached)
   \<and> queries ex_env [ex_model] ([[0, 1, - 1]], ex_cached) = ([[0, 1, - 1]], ex_cached)
   \<and> getIndexedModel ex_env ex_model ([[0, 1, - 1]], ex_cached) = Inr (0, [[0, 1, - 1]], ex_cached)"
proof -
  have wf: "wf_state ([], ex_annotation)"
    by (simp add: wf_state_def ex_annotation_def new_Annotation_def)
  have e: "indexedModels ex_annotation = Map.empty"
    by (simp add: ex_annotation_def new_Annotation_def)
  have q: "getIndexedModel ex_env ex_model ([], ex_annotation) = Inr (0, [[0, 1, - 1]], ex_cached)"
    by (simp add: getIndexedModel_def e ex_resolve ex_cached_def)
  have hit: "indexedModels ex_cached (model_id ex_model) = Some 0"
    by (simp add: ex_cached_def)
  have qs: "queries ex_env [ex_model] ([[0, 1, - 1]], ex_cached) = ([[0, 1, - 1]], ex_cached)"
    by (simp add: getIndexedModel_hit [OF hit])
  from getIndexedModel_cached_once [OF wf q qs] wf q qs show ?thesis by simp
qed

text \<open>
  Claim C4. For every list of annotation specs, \<open>getFileFromSources\<close> calls
  \<open>getFileFromSource\<close> exactly once for each distinct pair of format and url in the
  list, also when several specs share the pair and differ in schema or id. Every spec
  of the list finds, under its key, the one promise made for its pair of format and
  url, installed by the loop before anything is awaited; and when the function returns,
  the array has the length of the list and entry \<open>i\<close> is the file that the call for
  the pair of spec \<open>i\<close> gave. It returns whenever every source can be fetched and
  parsed.
\<close>

theorem getFileFromSources_one_fetch_per_key:
  "distinct (map (\<lambda>s. (format s, url s)) (fst (getFileFromSources ctx sources)))
   \<and> set (map (\<lambda>s. (format s, url s)) (fst (getFileFromSources ctx sources)))
       = set (map (\<lambda>s. (format s, url s)) sources)
   \<and> length (fst (getFileFromSources ctx sources))
       = card (set (map (\<lambda>s. (format s, url s)) sources))
   \<and> (\<forall>i<length sources. \<exists>p<length (fst (getFileFromSources ctx sources)).
         map_of (fst (install_all sources)) (source_key (sources ! i)) = Some p
         \<and> format (fst (getFileFromSources ctx sources) ! p) = format (sources ! i)
         \<and> url (fst (getFileFromSources ctx sources) ! p) = url (sources ! i))
   \<and> (\<forall>files. snd (getFileFromSources ctx sources) = Inr files \<longrightarrow>
         length files = length sources
         \<and> (\<forall>i<length sources. \<exists>p<length (fst (getFileFromSources ctx sources)). \<exists>f.
               format (fst (getFileFromSources ctx sources) ! p) = format (sources ! i)
               \<and> url (fst (getFileFromSources ctx sources) ! p) = url (sources ! i)
               \<and> getFileFromSource ctx (fst (getFileFromSources ctx sources) ! p) = Inr f
               \<and> files ! i = Some f))
   \<and> ((\<forall>src\<in>set sources. \<exists>f. getFileFromSource ctx src = Inr f) \<longrightarrow>
         (\<exists>files. snd (getFileFromSources ctx sources) = Inr files))"
proof -
  let ?issued = "snd (install_all sources)"
  from install_all_inv [of sources]
  have d: "distinct (map source_key ?issued)"
    and s: "set (map source_key ?issued) = set (map source_key sources)"
    by (simp_all add: promises_inv_def)
  have a: "distinct (map (\<lambda>s. (format s, url s)) ?issued)"
    using d by (simp add: distinct_map_source_key)
  have b: "set (map (\<lambda>s. (format s, url s)) ?issued) = set (map (\<lambda>s. (format s, url s)) sources)"
    using s set_map_source_key [of "set ?issued" "set sources"] by simp
  have n: "length ?issued = card (set (map (\<lambda>s. (format s, url s)) sources))"
    using distinct_card [OF a] b by simp
  have c: "\<forall>i<length sources. \<exists>p<length ?issued.
         map_of (fst (install_all sources)) (source_key (sources ! i)) = Some p
         \<and> format (?issued ! p) = format (sources ! i) \<and> url (?issued ! p) = url (sources ! i)"
    using promise_of_source [of _ sources] by (simp add: source_key_inj)
  have e: "\<forall>files. snd (getFileFromSources ctx sources) = Inr files \<longrightarrow>
         length files = length sources
         \<and> (\<forall>i<length sources. \<exists>p<length ?issued. \<exists>f.
               format (?issued ! p) = format (sources ! i) \<and> url (?issued ! p) = url (sources ! i)
               \<and> getFileFromSource ctx (?issued ! p) = Inr f \<and> files ! i = Some f)"
  proof (intro allI impI conjI)
    fix files i
    assume f: "snd (getFileFromSources ctx sources) = Inr files"
    show "length files = length sources"
    proof (cases sources)
      case Nil
      with f show ?thesis
        by (simp add: getFileFromSources_def promiseAllObj_def Let_def install_all_def
            split: sum.splits)
    next
      case (Cons x xs)
      then have "0 < length sources" by simp
      from getFileFromSources_files(1) [OF f this] show ?thesis .
    qed
    assume "i < length sources"
    from getFileFromSources_files(2) [OF f this]
    show "\<exists>p<length ?issued. \<exists>f.
               format (?issued ! p) = format (sources ! i) \<and> url (?issued ! p) = url (sources ! i)
               \<and> getFileFromSource ctx (?issued ! p) = Inr f \<and> files ! i = Some f"
      by (simp add: source_key_inj)
  qed
  have g: "(\<forall>src\<in>set sources. \<exists>f. getFileFromSource ctx src = Inr f) \<longrightarrow>
         (\<exists>files. snd (getFileFromSources ctx sources) = Inr files)"
    using getFileFromSources_succeeds [of sources ctx] by blast
  from a b n c e g show ?thesis
    unfolding fst_getFileFromSources by - (intro conjI; assumption)
qed

theorem getFileFromSources_one_fetch_per_key_witness:
  "fst (getFileFromSources ex_ctx ex_specs) = [ex_spec1, ex_spec3]
   \<and> distinct (map (\<lambda>s. (format s, url s)) [ex_spec1, ex_spec3])
   \<and> snd (getFileFromSources ex_ctx ex_specs)
       = Inr [Some (JsonFile ex_json), Some (JsonFile ex_json), Some (CifFile ex_cif)]
   \<and> length [Some (JsonFile ex_json), Some (JsonFile ex_json), Some (CifFile ex_cif)]
       = length ex_specs"
proof -
  have issued: "fst (getFileFromSources ex_ctx ex_specs) = [ex_spec1, ex_spec3]"
    by (simp add: fst_getFileFromSources ex_install)
  note t = getFileFromSources_one_fetch_per_key [of ex_ctx ex_specs]
  from t have "distinct (map (\<lambda>s. (format s, url s)) (fst (getFileFromSources ex_ctx ex_specs)))"
    by blast
  then have d: "distinct (map (\<lambda>s. (format s, url s)) [ex_spec1, ex_spec3])"
    by (simp only: issued)
  from t ex_files
  have l: "length [Some (JsonFile ex_json), Some (JsonFile ex_json), Some (CifFile ex_cif)]
       = length ex_specs"
    by blast
  from issued d ex_files l show ?thesis by (intro conjI)
qed

text \<open>
  Claim C5 says that the field accessor returns the value of the field as a string, or
  \<open>undefined\<close>. The JSON accessor returns the value unconverted: for a row whose field
  holds the number 5 the result of \<open>getValueFromJson\<close> is the number 5, neither a string
  nor \<open>undefined\<close>, although \<open>getValueForLocation\<close> is declared to return a string or
  \<open>undefined\<close> and the CIF accessor returns the string of the column.
\<close>

theorem getValueFromJson_returns_number:
  "getValueFromJson 0 ''color'' (JArr [JObj [(''label_asym_id'', JStr ''A''), (''color'', JNum 5)]])
     = Inr (JNum 5)
   \<and> JNum 5 \<noteq> JUndefined \<and> \<not> (\<exists>s. JNum 5 = JStr s)"
  by (simp add: getValueFromJson_array nth_js_def is_nullish_def lookup_def)

text \<open>
  Claim C6, as amended. For a JSON object of arrays, the columns are the arrays under
  the keys of the object that the schema's field list holds. If they do not all have
  the same length, parsing the rows fails with the format error; this happens in
  \<open>getRowsFromJson\<close>, which runs when the rows are first needed by a query, while the
  load (\<open>Annotation.fromSpec\<close>) accepts any JSON. If they all have length \<open>n\<close>, parsing
  produces exactly \<open>n\<close> rows, and row \<open>i\<close> holds, for each such key and no other, the
  \<open>i\<close>-th element of the array of that key. With no such key there are no rows.
\<close>

theorem getRowsFromJson_object_of_arrays:
  assumes keys: "keys = filter (\<lambda>key. key \<in> set (F sch)) (map fst cols)"
      and arrays: "\<forall>key\<in>set keys. \<exists>xs. column_array cols key = Some xs"
  shows "(keys = [] \<longrightarrow> getRowsFromJson F (JObj cols) sch = Inr [])
       \<and> ((\<exists>k\<in>set keys. \<exists>k'\<in>set keys. \<exists>xs xs'. column_array cols k = Some xs
               \<and> column_array cols k' = Some xs' \<and> length xs \<noteq> length xs') \<longrightarrow>
            getRowsFromJson F (JObj cols) sch
              = Inl (Error ''FormatError: arrays must have the same length.''))
       \<and> (keys \<noteq> [] \<and> (\<forall>key\<in>set keys. \<exists>xs. column_array cols key = Some xs \<and> length xs = n) \<longrightarrow>
            (\<exists>rows. getRowsFromJson F (JObj cols) sch = Inr rows \<and> length rows = n
               \<and> (\<forall>i<n. fst ` set (rows ! i) = set keys
                     \<and> (\<forall>key\<in>set keys. \<exists>xs. column_array cols key = Some xs
                           \<and> map_of (rows ! i) key = Some (xs ! i)))))
       \<and> fromSpec ctx spec (Some (JsonFile js)) = Inr (new_Annotation (JsonData js) (spec_schema spec))"
proof -
  note run = getRowsFromJson_object [of F cols sch, folded keys, unfolded Let_def]
  have a: "keys = [] \<longrightarrow> getRowsFromJson F (JObj cols) sch = Inr []"
    using run by simp
  have d: "fromSpec ctx spec (Some (JsonFile js)) = Inr (new_Annotation (JsonData js) (spec_schema spec))"
    by (simp add: fromSpec_def)
  have b: "getRowsFromJson F (JObj cols) sch
              = Inl (Error ''FormatError: arrays must have the same length.'')"
    if k: "k \<in> set keys" "k' \<in> set keys" "column_array cols k = Some xs"
      "column_array cols k' = Some xs'" "length xs \<noteq> length xs'" for k k' xs xs'
  proof -
    have ne: "keys \<noteq> []" using k(1) by auto
    then have "hd keys \<in> set keys" by simp
    with arrays obtain ys where ys: "column_array cols (hd keys) = Some ys" by auto
    have n: "member (get_prop (JObj cols) (hd keys)) ''length'' = Inr (JNum (int (length ys)))"
      by (rule column_array_length [OF ys])
    have "\<exists>key\<in>set keys. \<exists>zs. column_array cols key = Some zs
        \<and> JNum (int (length zs)) \<noteq> JNum (int (length ys))"
    proof (cases "length xs = length ys")
      case True
      then have "JNum (int (length xs')) \<noteq> JNum (int (length ys))" using k(5) by simp
      with k(2,4) show ?thesis by blast
    next
      case False
      then have "JNum (int (length xs)) \<noteq> JNum (int (length ys))" by simp
      with k(1,3) show ?thesis by blast
    qed
    then have "some_length_differs (JObj cols) (JNum (int (length ys))) keys = Inr True"
      using some_length_differs_arrays [OF arrays] by simp
    with run ne n show ?thesis by simp
  qed
  have c: "\<exists>rows. getRowsFromJson F (JObj cols) sch = Inr rows \<and> length rows = n
               \<and> (\<forall>i<n. fst ` set (rows ! i) = set keys
                     \<and> (\<forall>key\<in>set keys. \<exists>xs. column_array cols key = Some xs
                           \<and> map_of (rows ! i) key = Some (xs ! i)))"
    if ne: "keys \<noteq> []"
      and eq: "\<forall>key\<in>set keys. \<exists>xs. column_array cols key = Some xs \<and> length xs = n"
  proof -
    have "hd keys \<in> set keys" using ne by simp
    with eq obtain ys where ys: "column_array cols (hd keys) = Some ys" "length ys = n" by auto
    have len: "member (get_prop (JObj cols) (hd keys)) ''length'' = Inr (JNum (int n))"
      using column_array_length [OF ys(1)] ys(2) by simp
    have "\<not> (\<exists>key\<in>set keys. \<exists>zs. column_array cols key = Some zs
        \<and> JNum (int (length zs)) \<noteq> JNum (int n))"
      using eq by auto
    then have same: "some_length_differs (JObj cols) (JNum (int n)) keys = Inr False"
      using some_length_differs_arrays [OF arrays] by simp
    have rows: "getRowsFromJson F (JObj cols) sch = Inr (map (row_at (JObj cols) keys) [0..<n])"
      using run ne len same by (simp add: loop_bound_def)
    have "\<exists>xs. column_array cols key = Some xs
            \<and> map_of (map (row_at (JObj cols) keys) [0..<n] ! i) key = Some (xs ! i)"
      if "i < n" "key \<in> set keys" for i key
    proof -
      from eq that obtain xs where xs: "column_array cols key = Some xs" "length xs = n" by auto
      then have "lookup cols key = JArr xs"
        by (auto simp: column_array_def split: jsval.splits)
      then have "get_index (get_prop (JObj cols) key) (int i) = xs ! i"
        using that xs by (simp add: nth_js_def)
      then show ?thesis using that xs by (simp add: map_of_row_at)
    qed
    then show ?thesis using rows by (simp add: keys_row_at)
  qed
  from a b c d show ?thesis by blast
qed

theorem getRowsFromJson_object_of_arrays_witness:
  "(\<exists>rows. getRowsFromJson ex_fields (JObj ex_cols) ResidueRange = Inr rows \<and> length rows = 2
       \<and> map_of (rows ! 1) ''beg_label_seq_id'' = Some (JNum 15))
   \<and> getRowsFromJson ex_fields (JObj ex_bad_cols) ResidueRange
       = Inl (Error ''FormatError: arrays must have the same length.'')"
proof -
  let ?keys = "[''label_asym_id'', ''beg_label_seq_id'', ''end_label_seq_id'']"
  have k1: "?keys = filter (\<lambda>key. key \<in> set (ex_fields ResidueRange)) (map fst ex_cols)"
    and k2: "?keys = filter (\<lambda>key. key \<in> set (ex_fields ResidueRange)) (map fst ex_bad_cols)"
    by (simp_all add: ex_wanted_keys)
  have arr1: "\<forall>key\<in>set ?keys. \<exists>xs. column_array ex_cols key = Some xs"
    and arr2: "\<forall>key\<in>set ?keys. \<exists>xs. column_array ex_bad_cols key = Some xs"
    by (simp_all add: ex_column_arrays)
  have eq: "?keys \<noteq> [] \<and> (\<forall>key\<in>set ?keys. \<exists>xs. column_array ex_cols key = Some xs \<and> length xs = 2)"
    by (simp add: ex_column_arrays)
  have ne: "\<exists>k\<in>set ?keys. \<exists>k'\<in>set ?keys. \<exists>xs xs'. column_array ex_bad_cols k = Some xs
               \<and> column_array ex_bad_cols k' = Some xs' \<and> length xs \<noteq> length xs'"
    by (simp add: ex_column_arrays)
  note good = getRowsFromJson_object_of_arrays [where F = ex_fields and sch = ResidueRange
      and cols = ex_cols and n = 2, OF k1 arr1]
  have "\<exists>rows. getRowsFromJson ex_fields (JObj ex_cols) ResidueRange = Inr rows \<and> length rows = 2
               \<and> (\<forall>i<2. fst ` set (rows ! i) = set ?keys
                     \<and> (\<forall>key\<in>set ?keys. \<exists>xs. column_array ex_cols key = Some xs
                           \<and> map_of (rows ! i) key = Some (xs ! i)))"
    by (rule mp [OF good [THEN conjunct2, THEN conjunct2, THEN conjunct1] eq])
  then obtain rows where rows: "getRowsFromJson ex_fields (JObj ex_cols) ResidueRange = Inr rows"
      "length rows = 2"
      and each: "\<forall>i<2. fst ` set (rows ! i) = set ?keys
                     \<and> (\<forall>key\<in>set ?keys. \<exists>xs. column_array ex_cols key = Some xs
                           \<and> map_of (rows ! i) key = Some (xs ! i))"
    by (elim exE conjE)
  have "(1::nat) < 2" by simp
  with each have "\<forall>key\<in>set ?keys. \<exists>xs. column_array ex_cols key = Some xs
                           \<and> map_of (rows ! 1) key = Some (xs ! 1)"
    by (elim allE [of _ 1] impE conjE)
  then have "\<exists>xs. column_array ex_cols ''beg_label_seq_id'' = Some xs
                           \<and> map_of (rows ! 1) ''beg_label_seq_id'' = Some (xs ! 1)"
    by simp
  then have v: "map_of (rows ! 1) ''beg_label_seq_id'' = Some (JNum 15)"
    by (auto simp: ex_column_arrays)
  note unequal = getRowsFromJson_object_of_arrays [where F = ex_fields and sch = ResidueRange
      and cols = ex_bad_cols, OF k2 arr2]
  have bad: "getRowsFromJson ex_fields (JObj ex_bad_cols) ResidueRange
       = Inl (Error ''FormatError: arrays must have the same length.'')"
    by (rule mp [OF unequal [THEN conjunct2, THEN conjunct1] ne])
  from rows v have "\<exists>rows. getRowsFromJson ex_fields (JObj ex_cols) ResidueRange = Inr rows
       \<and> length rows = 2 \<and> map_of (rows ! 1) ''beg_label_seq_id'' = Some (JNum 15)"
    by (intro exI [of _ rows] conjI)
  with bad show ?thesis by (intro conjI)
qed

text \<open>
  The claim as stated fails: the load of an object whose columns differ in length
  succeeds, and the format error is thrown later, by the first query.
\<close>

theorem load_accepts_unequal_columns_counterexample:
  "fromSpec ex_ctx ex_spec1 (Some (JsonFile (JObj ex_bad_cols)))
     = Inr (new_Annotation (JsonData (JObj ex_bad_cols)) ResidueRange)
   \<and> getValueForLocation ex_env \<lparr>unit_model = ex_model, element = 0\<rparr> ''color''
        ([], new_Annotation (JsonData (JObj ex_bad_cols)) ResidueRange)
       = Inl (Error ''FormatError: arrays must have the same length.'')"
proof -
  have "fromSpec ex_ctx ex_spec1 (Some (JsonFile (JObj ex_bad_cols)))
     = Inr (new_Annotation (JsonData (JObj ex_bad_cols)) ResidueRange)"
    by (simp add: fromSpec_def ex_spec1_def)
  moreover have "getRows ex_env (new_Annotation (JsonData (JObj ex_bad_cols)) ResidueRange)
       = Inl (Error ''FormatError: arrays must have the same length.'')"
    by code_simp
  then have q:  "getValueForLocation ex_env \<lparr>unit_model = ex_model, element = 0\<rparr> ''color''
        ([], new_Annotation (JsonData (JObj ex_bad_cols)) ResidueRange)
       = Inl (Error ''FormatError: arrays must have the same length.'')"
    by (intro getValueForLocation_fails) (simp_all add: new_Annotation_def)
  ultimately show ?thesis using q by (intro conjI)
qed



text \<open>
  Claim C8. The rows that \<open>getRowsFromCif\<close> produces are the rows of \<open>getRowsFromTable\<close>
  for the table of the category, one for each row of the table, and a field is a key
  of row \<open>i\<close> if and only if it is a column of the table whose value-kind at row \<open>i\<close>
  is \<open>Present\<close>; its value is then the value of the column at that row. A field marked
  not-applicable or unknown is absent from the row: no default stands in for it.
\<close>

theorem getRowsFromCif_omits_absent_fields:
  "\<exists>cifSchema. pickObjectKeys (JObj (CIFAnnotationSchema env)) (FieldsForSchemas env sch) = Inr cifSchema
     \<and> getRowsFromCif env cat sch = Inr (getRowsFromTable (toTable env cifSchema cat))
     \<and> length (getRowsFromTable (toTable env cifSchema cat)) = tbl_rowCount (toTable env cifSchema cat)
     \<and> (\<forall>i<tbl_rowCount (toTable env cifSchema cat). \<forall>col.
           (col \<in> fst ` set (getRowsFromTable (toTable env cifSchema cat) ! i)
              \<longleftrightarrow> col \<in> set (tbl_columns (toTable env cifSchema cat))
                  \<and> col_valueKind (tbl_column (toTable env cifSchema cat) col) (int i) = Present)
           \<and> (col \<in> fst ` set (getRowsFromTable (toTable env cifSchema cat) ! i)
              \<longrightarrow> map_of (getRowsFromTable (toTable env cifSchema cat) ! i) col
                    = Some (col_value (tbl_column (toTable env cifSchema cat) col) (int i))))"
proof -
  obtain cifSchema where p: "pickObjectKeys (JObj (CIFAnnotationSchema env)) (FieldsForSchemas env sch) = Inr cifSchema"
    using pickObjectKeys_object by blast
  have r: "getRowsFromCif env cat sch = Inr (getRowsFromTable (toTable env cifSchema cat))"
    using p by (simp add: getRowsFromCif_def extend_array_def)
  from p r getRowsFromTable_rows [of "toTable env cifSchema cat"] show ?thesis by blast
qed

theorem getRowsFromCif_omits_absent_fields_witness:
  "getRowsFromCif ex_env ex_category Residue = Inr [[(''label_asym_id'', JStr ''A'')], []]
   \<and> length [[(''label_asym_id'', JStr ''A'')], ([] :: annotation_row)] = cat_rowCount ex_category
   \<and> ''label_asym_id'' \<in> fst ` set ([[(''label_asym_id'', JStr ''A'')], ([] :: annotation_row)] ! 0)
   \<and> ''label_asym_id'' \<notin> fst ` set ([[(''label_asym_id'', JStr ''A'')], ([] :: annotation_row)] ! 1)"
proof -
  let ?schema = "[(''label_asym_id'', JStr ''str''), (''label_seq_id'', JStr ''int'')]"
  let ?t = "toTable ex_env ?schema ex_category"
  have rows: "getRowsFromCif ex_env ex_category Residue = Inr [[(''label_asym_id'', JStr ''A'')], []]"
    by code_simp
  from getRowsFromCif_omits_absent_fields [where env = ex_env and sch = Residue and cat = ex_category]
  obtain cifSchema where p: "pickObjectKeys (JObj (CIFAnnotationSchema ex_env)) (FieldsForSchemas ex_env Residue) = Inr cifSchema"
    and r: "getRowsFromCif ex_env ex_category Residue = Inr (getRowsFromTable (toTable ex_env cifSchema ex_category))"
    and l: "length (getRowsFromTable (toTable ex_env cifSchema ex_category)) = tbl_rowCount (toTable ex_env cifSchema ex_category)"
    by (elim exE conjE)
  from p have c: "cifSchema = ?schema" by (simp add: ex_cifSchema)
  have n: "tbl_rowCount ?t = cat_rowCount ex_category"
    by (simp add: ex_env_def ex_toTable_def)
  from r rows have "getRowsFromTable (toTable ex_env cifSchema ex_category) = [[(''label_asym_id'', JStr ''A'')], []]"
    by simp
  with l c n have len: "length [[(''label_asym_id'', JStr ''A'')], ([] :: annotation_row)] = cat_rowCount ex_category"
    by simp
  have "''label_asym_id'' \<in> fst ` set ([[(''label_asym_id'', JStr ''A'')], ([] :: annotation_row)] ! 0)"
    and "''label_asym_id'' \<notin> fst ` set ([[(''label_asym_id'', JStr ''A'')], ([] :: annotation_row)] ! 1)"
    by simp_all
  with rows len show ?thesis by (intro conjI)
qed






end
